theory Spec2Isabelle
  imports Complex_Main "HOL-Library.Log_Nat"
begin

section \<open>Dates\<close>

text \<open>
  A JavaScript \<open>Date\<close> is modelled by its time value, an integer count of milliseconds.
  \<open>Date.getTime\<close> and the relational operators on dates are then the integer itself and
  its order. The ledger and the recurrence calculator are modelled in a time zone without
  offset changes, where the time value is counted on the local civil time line and every
  calendar day has 86400000 ms. The streak, whose value depends on the time zone, is modelled
  with the time zone explicit.
\<close>

type_synonym Date = int

definition msPerDay :: int where
  "msPerDay = 86400000"

text \<open>\<open>normalizeDate\<close> of \<open>trackingStore.ts\<close>: a copy with \<open>setHours(0, 0, 0, 0)\<close>.\<close>

definition normalizeDate :: "Date \<Rightarrow> Date" where
  "normalizeDate d = d - d mod msPerDay"

text \<open>The exceptions that the modelled code throws.\<close>

datatype error = NoUserLoggedIn | InboxItemNotFound | RangeError | DocNotFound

section \<open>Numbers\<close>

text \<open>
  A JavaScript number is an IEEE 754 double. The numbers met here (counts, percentages and
  their quotients) are far from overflow and underflow, so a double is modelled by the
  rational it denotes, and an arithmetic operation by the exact operation followed by
  \<open>fl\<close>: rounding to the nearest rational with a 53-bit significand, ties to the even
  significand, the exponent unbounded. \<open>ilog2 x\<close> is the exponent of a positive \<open>x\<close>: the
  integer \<open>k\<close> with \<open>2^k \<le> x < 2^(k+1)\<close>. Sums of integers below \<open>2^53\<close> are exact and are
  written as integer sums.
\<close>

definition ilog2 :: "rat \<Rightarrow> int" where
  "ilog2 x = (case quotient_of x of (a, b) \<Rightarrow>
     let k = bitlen a - bitlen b in if 2 powi k \<le> x then k else k - 1)"

definition round_half_even :: "rat \<Rightarrow> int" where
  "round_half_even y =
     (let f = \<lfloor>y\<rfloor>; r = y - of_int f in
      if r < 1 / 2 then f else if 1 / 2 < r then f + 1 else if even f then f else f + 1)"

definition fl :: "rat \<Rightarrow> rat" where
  "fl x = (if x = 0 then 0 else
     let e = ilog2 \<bar>x\<bar> - 52 in
     sgn x * of_int (round_half_even (\<bar>x\<bar> / 2 powi e)) * 2 powi e)"

text \<open>\<open>Math.round\<close> rounds to the nearest integer, a tie towards \<open>+\<infinity>\<close>.\<close>

definition Math_round :: "rat \<Rightarrow> int" where
  "Math_round x = \<lfloor>x + 1 / 2\<rfloor>"

section \<open>The data model (\<open>src/types/index.ts\<close>)\<close>

datatype GoalType = Long_term | Mid_term | Weekly | Daily

datatype GoalStatus =
  Goal_not_started | Goal_in_progress | Goal_completed | Goal_on_hold | Goal_cancelled

datatype Priority = Low | Medium | High | Urgent

datatype ProgressTrackingMode = Manual | Automatic

record Goal =
  goal_id :: string
  goal_userId :: string
  goal_categoryId :: string
  goal_type :: GoalType
  goal_title :: string
  goal_description :: string
  goal_status :: GoalStatus
  goal_priority :: Priority
  goal_progress :: int
  goal_parentGoalId :: "string option"
  goal_startDate :: "Date option"
  goal_targetDate :: "Date option"
  goal_completedDate :: "Date option"
  goal_trackingMode :: ProgressTrackingMode
  goal_targetDays :: "nat option"
  goal_trackingStartDate :: "Date option"
  goal_tags :: "string list"
  goal_createdAt :: Date
  goal_updatedAt :: Date

datatype Frequency = Freq_daily | Freq_weekly | Freq_monthly | Freq_yearly

text \<open>
  A recurrence pattern. The interval is a whole number (the form reads it with
  \<open>parseInt\<close>); the day of month is any finite number.
\<close>

record RecurrencePattern =
  frequency :: Frequency
  interval :: int
  daysOfWeek :: "int list option"
  dayOfMonth :: "rat option"
  endDate :: "Date option"

datatype TodoStatus = Todo_pending | Todo_in_progress | Todo_completed | Todo_cancelled

datatype TodoSource = Src_manual | Src_inbox | Src_calendar | Src_slack | Src_email

record Todo =
  todo_id :: string
  todo_userId :: string
  todo_categoryId :: string
  todo_goalId :: "string option"
  todo_title :: string
  todo_description :: string
  todo_status :: TodoStatus
  todo_priority :: Priority
  todo_dueDate :: "Date option"
  todo_scheduledDate :: "Date option"
  todo_isRecurring :: bool
  todo_recurrencePattern :: "RecurrencePattern option"
  todo_source :: TodoSource
  todo_sourceId :: "string option"
  todo_tags :: "string list"
  todo_createdAt :: Date
  todo_updatedAt :: Date
  todo_completedAt :: "Date option"

datatype InboxSource = Inbox_slack | Inbox_email | Inbox_calendar

datatype InboxStatus = Inbox_pending | Inbox_converted | Inbox_dismissed

text \<open>
  An inbox document. \<open>originalContent\<close> (the \<open>JSON.stringify\<close> of the message) and
  \<open>sourceDate\<close> are left out: no operation modelled here reads them. The Cloud Functions
  handler writes neither \<open>updatedAt\<close> nor the conversion fields, hence the options.
\<close>

record InboxItem =
  ii_id :: string
  ii_userId :: string
  ii_source :: InboxSource
  ii_status :: InboxStatus
  ii_title :: string
  ii_description :: string
  ii_sourceId :: string
  ii_sourceUrl :: "string option"
  ii_sourceSender :: "string option"
  ii_sourceChannel :: "string option"
  ii_convertedToId :: "string option"
  ii_convertedAt :: "Date option"
  ii_createdAt :: Date
  ii_updatedAt :: "Date option"

text \<open>
  A Firestore subcollection family \<open>users/{uid}/<name>\<close>: the documents under each user
  id, in insertion order.
\<close>

type_synonym 'doc collection = "string \<Rightarrow> 'doc list"

section \<open>The check-in ledger (\<open>src/stores/trackingStore.ts\<close>)\<close>

record DailyCheckIn =
  ci_id :: string
  ci_userId :: string
  ci_goalId :: string
  ci_date :: Date
  ci_completed :: bool
  ci_notes :: "string option"
  ci_createdAt :: Date

text \<open>
  The store keeps a snapshot \<open>checkIns\<close> in memory and the module keeps
  \<open>currentUserId\<close>; the documents themselves live in the Firestore collection
  \<open>users/{uid}/checkIns\<close>, here the list \<open>fs_checkIns\<close> in insertion order.
  Actions read the snapshot and write the collection; the \<open>onSnapshot\<close> listener
  replaces the snapshot by the result of the query \<open>orderBy('date', 'desc')\<close>.
\<close>

record Tracking =
  checkIns :: "DailyCheckIn list"
  currentUserId :: "string option"
  fs_checkIns :: "DailyCheckIn list"

definition query_checkIns :: "DailyCheckIn list \<Rightarrow> DailyCheckIn list" where
  "query_checkIns docs = sort_key (\<lambda>c. - ci_date c) docs"

definition onSnapshot :: "Tracking \<Rightarrow> Tracking" where
  "onSnapshot tr = tr\<lparr>checkIns := query_checkIns (fs_checkIns tr)\<rparr>"

text \<open>\<open>notes || null\<close>: an absent or empty note is stored as \<open>null\<close>.\<close>

definition notes_or_null :: "string option \<Rightarrow> string option" where
  "notes_or_null n = (case n of None \<Rightarrow> None | Some s \<Rightarrow> if s = [] then None else Some s)"

text \<open>
  \<open>addCheckIn\<close>: \<open>newId\<close> is the identifier Firestore gives the new document and
  \<open>now\<close> the clock reading; both are inputs of the model.
\<close>

definition addCheckIn ::
  "string \<Rightarrow> Date \<Rightarrow> Tracking \<Rightarrow> string \<Rightarrow> Date \<Rightarrow> bool \<Rightarrow> string option
     \<Rightarrow> error + (Tracking \<times> string)" where
  "addCheckIn newId now tr goalId date completed notes =
     (case currentUserId tr of
        None \<Rightarrow> Inl NoUserLoggedIn
      | Some uid \<Rightarrow>
          Inr (tr\<lparr>fs_checkIns := fs_checkIns tr @
                 [\<lparr>ci_id = newId, ci_userId = uid, ci_goalId = goalId,
                   ci_date = normalizeDate date, ci_completed = completed,
                   ci_notes = notes_or_null notes, ci_createdAt = now\<rparr>]\<rparr>, newId))"

definition removeCheckIn :: "Tracking \<Rightarrow> string \<Rightarrow> error + Tracking" where
  "removeCheckIn tr i =
     (case currentUserId tr of
        None \<Rightarrow> Inl NoUserLoggedIn
      | Some uid \<Rightarrow> Inr (tr\<lparr>fs_checkIns := filter (\<lambda>c. ci_id c \<noteq> i) (fs_checkIns tr)\<rparr>))"

definition getCheckInsForGoal :: "Tracking \<Rightarrow> string \<Rightarrow> DailyCheckIn list" where
  "getCheckInsForGoal tr goalId = filter (\<lambda>c. ci_goalId c = goalId) (checkIns tr)"

definition getCheckInForDate :: "Tracking \<Rightarrow> string \<Rightarrow> Date \<Rightarrow> DailyCheckIn option" where
  "getCheckInForDate tr goalId date =
     find (\<lambda>c. ci_goalId c = goalId \<and> normalizeDate (ci_date c) = normalizeDate date)
       (checkIns tr)"

definition toggleCheckIn ::
  "string \<Rightarrow> Date \<Rightarrow> Tracking \<Rightarrow> string \<Rightarrow> Date \<Rightarrow> error + Tracking" where
  "toggleCheckIn newId now tr goalId date =
     (case currentUserId tr of
        None \<Rightarrow> Inl NoUserLoggedIn
      | Some uid \<Rightarrow>
         (case getCheckInForDate tr goalId date of
            Some existingCheckIn \<Rightarrow>
              if ci_completed existingCheckIn
              then removeCheckIn tr (ci_id existingCheckIn)
              else Inr tr
          | None \<Rightarrow>
             (case addCheckIn newId now tr goalId date True None of
                Inl e \<Rightarrow> Inl e
              | Inr (tr', _) \<Rightarrow> Inr tr')))"

text \<open>The snapshot is up to date when it is the query result of the collection.\<close>

definition synced :: "Tracking \<Rightarrow> bool" where
  "synced tr \<longleftrightarrow> checkIns tr = query_checkIns (fs_checkIns tr)"

text \<open>The document that \<open>toggleCheckIn\<close> adds: \<open>addCheckIn(goalId, date, true)\<close>.\<close>

definition completed_checkIn :: "string \<Rightarrow> string \<Rightarrow> string \<Rightarrow> Date \<Rightarrow> Date \<Rightarrow> DailyCheckIn" where
  "completed_checkIn newId uid goalId date now =
     \<lparr>ci_id = newId, ci_userId = uid, ci_goalId = goalId, ci_date = normalizeDate date,
      ci_completed = True, ci_notes = None, ci_createdAt = now\<rparr>"

text \<open>Two example ledgers of user \<open>u1\<close>, each holding one document for day 2 of goal \<open>g2\<close>.\<close>

definition doc_done :: DailyCheckIn where
  "doc_done = \<lparr>ci_id = ''c1'', ci_userId = ''u1'', ci_goalId = ''g2'', ci_date = 172800000,
      ci_completed = True, ci_notes = Some ''done'', ci_createdAt = 172805000\<rparr>"

definition doc_open :: DailyCheckIn where
  "doc_open = \<lparr>ci_id = ''c1'', ci_userId = ''u1'', ci_goalId = ''g2'', ci_date = 172800000,
      ci_completed = False, ci_notes = None, ci_createdAt = 172805000\<rparr>"

definition ledger_other :: Tracking where
  "ledger_other =
     \<lparr>checkIns = [doc_done], currentUserId = Some ''u1'', fs_checkIns = [doc_done]\<rparr>"

definition ledger_incomplete :: Tracking where
  "ledger_incomplete =
     \<lparr>checkIns = [doc_open], currentUserId = Some ''u1'', fs_checkIns = [doc_open]\<rparr>"

section \<open>The Slack webhooks (\<open>api/slack/webhook.ts\<close>, \<open>functions/src/slack/webhook.ts\<close>)\<close>

subsection \<open>\<open>parseInt\<close>\<close>

text \<open>
  \<open>parseInt(s)\<close> without a radix: leading white space is skipped, then an optional sign,
  then an optional \<open>0x\<close>/\<open>0X\<close> prefix selecting base 16, then the longest run of digits;
  no digit gives \<open>NaN\<close>, here \<open>None\<close>. The result is kept as an exact integer.
\<close>

definition is_white_space :: "char \<Rightarrow> bool" where
  "is_white_space c \<longleftrightarrow> (of_char c :: nat) \<in> {9, 10, 11, 12, 13, 32}"

definition digit_value :: "char \<Rightarrow> nat option" where
  "digit_value c =
     (let n = (of_char c :: nat) in
      if 48 \<le> n \<and> n \<le> 57 then Some (n - 48)
      else if 97 \<le> n \<and> n \<le> 122 then Some (n - 87)
      else if 65 \<le> n \<and> n \<le> 90 then Some (n - 55)
      else None)"

definition is_digit :: "nat \<Rightarrow> char \<Rightarrow> bool" where
  "is_digit R c = (case digit_value c of None \<Rightarrow> False | Some v \<Rightarrow> v < R)"

definition digits_value :: "nat \<Rightarrow> string \<Rightarrow> nat" where
  "digits_value R Z =
     foldl (\<lambda>acc c. case digit_value c of None \<Rightarrow> acc | Some v \<Rightarrow> acc * R + v) 0 Z"

definition strip_sign :: "string \<Rightarrow> int \<times> string" where
  "strip_sign S =
     (case S of
        c # rest \<Rightarrow> if c = CHR ''-'' then (- 1, rest)
                    else if c = CHR ''+'' then (1, rest) else (1, S)
      | [] \<Rightarrow> (1, S))"

definition strip_prefix :: "string \<Rightarrow> nat \<times> string" where
  "strip_prefix S =
     (case S of
        a # b # rest \<Rightarrow>
          if a = CHR ''0'' \<and> (b = CHR ''x'' \<or> b = CHR ''X'') then (16, rest) else (10, S)
      | _ \<Rightarrow> (10, S))"

definition parseInt :: "string \<Rightarrow> int option" where
  "parseInt s =
     (case strip_sign (dropWhile is_white_space s) of (sign, S1) \<Rightarrow>
      case strip_prefix S1 of (R, S2) \<Rightarrow>
      case takeWhile (is_digit R) S2 of
        [] \<Rightarrow> None
      | Z \<Rightarrow> Some (sign * int (digits_value R Z)))"

subsection \<open>Signature verification\<close>

text \<open>
  The HMAC-SHA256 of Node's \<open>crypto\<close> is an input: \<open>hmac key message\<close> is the hex
  digest. \<open>crypto.timingSafeEqual\<close> throws a \<open>RangeError\<close> on buffers of different
  length. \<open>now_ms\<close> is \<open>Date.now()\<close>.
\<close>

definition timingSafeEqual :: "string \<Rightarrow> string \<Rightarrow> error + bool" where
  "timingSafeEqual a b = (if length a \<noteq> length b then Inl RangeError else Inr (a = b))"

text \<open>\<open>Math.abs(now - parseInt(timestamp)) > 300\<close>; a comparison with \<open>NaN\<close> is false.\<close>

definition timestamp_too_old :: "int \<Rightarrow> string \<Rightarrow> bool" where
  "timestamp_too_old now timestamp =
     (case parseInt timestamp of None \<Rightarrow> False | Some t \<Rightarrow> \<bar>now - t\<bar> > 300)"

text \<open>
  \<open>verifySlackSignature\<close> of \<open>api/slack/webhook.ts\<close>; the two headers are
  \<open>x-slack-request-timestamp\<close> and \<open>x-slack-signature\<close>, \<open>None\<close> when absent; an
  absent and an empty header are both falsy.
\<close>

definition verifySlackSignature_api ::
  "(string \<Rightarrow> string \<Rightarrow> string) \<Rightarrow> string \<Rightarrow> int \<Rightarrow> string option \<Rightarrow> string option \<Rightarrow> string
     \<Rightarrow> error + bool" where
  "verifySlackSignature_api hmac SLACK_SIGNING_SECRET now_ms timestamp slackSignature body =
     (if SLACK_SIGNING_SECRET = [] then Inr True
      else case (timestamp, slackSignature) of
        (Some ts, Some sg) \<Rightarrow>
          if ts = [] \<or> sg = [] then Inr False
          else if timestamp_too_old (now_ms div 1000) ts then Inr False
          else timingSafeEqual
                 (''v0='' @ hmac SLACK_SIGNING_SECRET (''v0:'' @ ts @ '':'' @ body)) sg
      | _ \<Rightarrow> Inr False)"

text \<open>\<open>verifySlackSignature\<close> of \<open>functions/src/slack/webhook.ts\<close>.\<close>

definition verifySlackSignature_fn ::
  "(string \<Rightarrow> string \<Rightarrow> string) \<Rightarrow> int \<Rightarrow> string \<Rightarrow> string \<Rightarrow> string \<Rightarrow> string \<Rightarrow> error + bool" where
  "verifySlackSignature_fn hmac now_ms signingSecret signature timestamp body =
     (if timestamp_too_old (now_ms div 1000) timestamp then Inr False
      else timingSafeEqual
             (''v0='' @ hmac signingSecret (''v0:'' @ timestamp @ '':'' @ body))
             signature)"

text \<open>
  What the two handlers do with a request up to and including the signature check.
  \<open>api/slack/webhook.ts\<close> answers \<open>OPTIONS\<close> with 204 and any other non-\<open>POST\<close> method
  with 405, then verifies; an exception of the check is not caught.
  \<open>functions/src/slack/webhook.ts\<close> answers a \<open>url_verification\<close> body first, verifies only
  when secret and both headers are present, and answers 200 from its \<open>catch\<close> block.
  \<open>Proceeds\<close> is a request that goes on to event handling.
\<close>

datatype verdict =
  Status204 | Status405 | Invalid401 | Challenge | Uncaught error | Caught200 error | Proceeds

definition handler_api ::
  "(string \<Rightarrow> string \<Rightarrow> string) \<Rightarrow> string \<Rightarrow> int \<Rightarrow> string \<Rightarrow> string option \<Rightarrow> string option
     \<Rightarrow> string \<Rightarrow> verdict" where
  "handler_api hmac SLACK_SIGNING_SECRET now_ms method timestamp slackSignature rawBody =
     (if method = ''OPTIONS'' then Status204
      else if method \<noteq> ''POST'' then Status405
      else case verifySlackSignature_api hmac SLACK_SIGNING_SECRET now_ms timestamp
                  slackSignature rawBody of
             Inl e \<Rightarrow> Uncaught e
           | Inr ok \<Rightarrow> if \<not> ok then Invalid401 else Proceeds)"

definition slackWebhook ::
  "(string \<Rightarrow> string \<Rightarrow> string) \<Rightarrow> string \<Rightarrow> int \<Rightarrow> string option \<Rightarrow> string option \<Rightarrow> string option
     \<Rightarrow> string \<Rightarrow> verdict" where
  "slackWebhook hmac signingSecret now_ms body_type signature timestamp rawBody =
     (if body_type = Some ''url_verification'' then Challenge
      else case (signature, timestamp) of
        (Some sg, Some ts) \<Rightarrow>
          if signingSecret \<noteq> [] \<and> sg \<noteq> [] \<and> ts \<noteq> [] then
            (case verifySlackSignature_fn hmac now_ms signingSecret sg ts rawBody of
               Inl e \<Rightarrow> Caught200 e
             | Inr isValid \<Rightarrow> if \<not> isValid then Invalid401 else Proceeds)
          else Proceeds
      | _ \<Rightarrow> Proceeds)"

subsection \<open>Creating inbox items\<close>

text \<open>The message arguments of the two \<open>createInboxItem\<close> functions.\<close>

record api_message =
  am_text :: string
  am_user :: string
  am_channel :: string
  am_ts :: string
  am_thread_ts :: "string option"

record fn_message =
  fm_text :: string
  fm_senderName :: string
  fm_channelName :: string
  fm_channelId :: string
  fm_timestamp :: string
  fm_teamId :: string

text \<open>
  \<open>createInboxItem\<close> of \<open>api/slack/webhook.ts\<close>. The module's \<open>db\<close> is \<open>null\<close> when
  Firestore could not be initialised; \<open>newId\<close> is the id Firestore gives the new document
  and \<open>now\<close> the clock reading. The query \<open>where('sourceId', '==', ts).limit(1)\<close> is the
  first matching document, if any.
\<close>

definition createInboxItem_api ::
  "InboxItem collection option \<Rightarrow> string \<Rightarrow> Date \<Rightarrow> string \<Rightarrow> api_message
     \<Rightarrow> InboxItem collection option" where
  "createInboxItem_api db newId now userId message =
     (case db of
        None \<Rightarrow> None
      | Some inbox \<Rightarrow>
          let existingItem = take 1 (filter (\<lambda>d. ii_sourceId d = am_ts message) (inbox userId))
          in if existingItem \<noteq> [] then Some inbox
             else Some (inbox(userId := inbox userId @
               [\<lparr>ii_id = newId, ii_userId = userId, ii_source = Inbox_slack,
                 ii_status = Inbox_pending,
                 ii_title = take 100 (am_text message)
                            @ (if length (am_text message) > 100 then ''...'' else ''''),
                 ii_description = am_text message,
                 ii_sourceId = am_ts message,
                 ii_sourceUrl = None,
                 ii_sourceSender = Some (am_user message),
                 ii_sourceChannel = Some (am_channel message),
                 ii_convertedToId = None, ii_convertedAt = None,
                 ii_createdAt = now, ii_updatedAt = Some now\<rparr>])))"

text \<open>\<open>createInboxItem\<close> of \<open>functions/src/slack/webhook.ts\<close>.\<close>

definition createInboxItem_fn ::
  "InboxItem collection \<Rightarrow> string \<Rightarrow> Date \<Rightarrow> string \<Rightarrow> fn_message \<Rightarrow> InboxItem collection" where
  "createInboxItem_fn inbox newId now userId message =
     (let inboxItem =
        \<lparr>ii_id = newId, ii_userId = userId, ii_source = Inbox_slack, ii_status = Inbox_pending,
          ii_title = (if length (fm_text message) > 100
                      then take 100 (fm_text message) @ ''...'' else fm_text message),
          ii_description = fm_text message,
          ii_sourceId = fm_channelId message @ ''-'' @ fm_timestamp message,
          ii_sourceUrl = Some (''https://slack.com/archives/'' @ fm_channelId message @ ''/p''
                               @ remove1 CHR ''.'' (fm_timestamp message)),
          ii_sourceSender = Some (fm_senderName message),
          ii_sourceChannel = Some (fm_channelName message),
          ii_convertedToId = None, ii_convertedAt = None,
          ii_createdAt = now, ii_updatedAt = None\<rparr>;
          existingItems = take 1 (filter (\<lambda>d. ii_sourceId d = ii_sourceId inboxItem) (inbox userId))
      in if existingItems \<noteq> [] then inbox
         else inbox(userId := inbox userId @ [inboxItem]))"

text \<open>
  An arrival is one call of either \<open>createInboxItem\<close> with Firestore available;
  arrivals are delivered one after the other, each seeing the writes of the ones before.
\<close>

datatype arrival =
  Api_arrival string Date string api_message
| Fn_arrival string Date string fn_message

fun arrival_user :: "arrival \<Rightarrow> string" where
  "arrival_user (Api_arrival newId now userId message) = userId"
| "arrival_user (Fn_arrival newId now userId message) = userId"

fun arrival_sourceId :: "arrival \<Rightarrow> string" where
  "arrival_sourceId (Api_arrival newId now userId message) = am_ts message"
| "arrival_sourceId (Fn_arrival newId now userId message) =
     fm_channelId message @ ''-'' @ fm_timestamp message"

fun deliver :: "InboxItem collection \<Rightarrow> arrival \<Rightarrow> InboxItem collection" where
  "deliver inbox (Api_arrival newId now userId message) =
     (case createInboxItem_api (Some inbox) newId now userId message of
        None \<Rightarrow> inbox | Some inbox' \<Rightarrow> inbox')"
| "deliver inbox (Fn_arrival newId now userId message) =
     createInboxItem_fn inbox newId now userId message"

text \<open>The number of documents in a user's inbox with a given \<open>sourceId\<close>.\<close>

definition items_with :: "InboxItem collection \<Rightarrow> string \<Rightarrow> string \<Rightarrow> nat" where
  "items_with inbox userId sourceId =
     length (filter (\<lambda>d. ii_sourceId d = sourceId) (inbox userId))"

text \<open>An example: the same mention delivered twice to each handler.\<close>

definition mention :: api_message where
  "mention = \<lparr>am_text = ''<@U1> please review'', am_user = ''U2'', am_channel = ''C1'',
      am_ts = ''1700000000.000100'', am_thread_ts = None\<rparr>"

definition mention_fn :: fn_message where
  "mention_fn = \<lparr>fm_text = ''<@U1> please review'', fm_senderName = ''Ann'',
      fm_channelName = ''general'', fm_channelId = ''C1'',
      fm_timestamp = ''1700000000.000100'', fm_teamId = ''T1''\<rparr>"

definition redelivery :: "arrival list" where
  "redelivery = [Api_arrival ''i1'' 5 ''u1'' mention, Api_arrival ''i2'' 9 ''u1'' mention,
                 Fn_arrival ''i3'' 12 ''u1'' mention_fn, Fn_arrival ''i4'' 15 ''u1'' mention_fn]"

section \<open>The stores: inbox (second part of \<open>src/stores/categoriesStore.ts\<close>), todos (\<open>src/unnamed/part_007\<close>) and goals (\<open>src/stores/goalsStore.ts\<close>)\<close>

text \<open>
  The snapshots \<open>items\<close>, \<open>todos\<close> and \<open>goals\<close> that the stores keep in memory
  (\<open>app_items\<close>, \<open>app_todos\<close>, \<open>app_goals\<close>), and the Firestore collections
  \<open>users/{uid}/inbox\<close>, \<open>users/{uid}/todos\<close> and \<open>users/{uid}/goals\<close> that the
  actions write. Only the \<open>onSnapshot\<close> listeners write the snapshots.
\<close>

record App =
  app_items :: "InboxItem list"
  app_todos :: "Todo list"
  app_goals :: "Goal list"
  fs_inbox :: "InboxItem collection"
  fs_todos :: "Todo collection"
  fs_goals :: "Goal collection"

text \<open>
  An action gives its result, or the exception it throws, together with the state it leaves
  behind: what an action has written before it throws stays written.
\<close>

type_synonym 'a outcome = "(error + 'a) \<times> App"

text \<open>
  Firestore's \<open>updateDoc\<close> rejects when the document does not exist; \<open>deleteDoc\<close> does
  not. \<open>doc_id\<close> reads the id of a document.
\<close>

definition updateDoc ::
  "'doc collection \<Rightarrow> string \<Rightarrow> ('doc \<Rightarrow> string) \<Rightarrow> string \<Rightarrow> ('doc \<Rightarrow> 'doc)
     \<Rightarrow> error + 'doc collection" where
  "updateDoc coll uid doc_id i upd =
     (if \<exists>d\<in>set (coll uid). doc_id d = i
      then Inr (coll(uid := map (\<lambda>d. if doc_id d = i then upd d else d) (coll uid)))
      else Inl DocNotFound)"

definition deleteDoc ::
  "'doc collection \<Rightarrow> string \<Rightarrow> ('doc \<Rightarrow> string) \<Rightarrow> string \<Rightarrow> 'doc collection" where
  "deleteDoc coll uid doc_id i = coll(uid := filter (\<lambda>d. doc_id d \<noteq> i) (coll uid))"

subsection \<open>The todos store\<close>

text \<open>
  \<open>newId\<close> is the id that Firestore gives the new document and \<open>now\<close> the clock reading.
\<close>

definition addTodo :: "App \<Rightarrow> string \<Rightarrow> Date \<Rightarrow> Todo \<Rightarrow> string outcome" where
  "addTodo app newId now todoData =
     (Inr newId,
      app\<lparr>fs_todos := (fs_todos app)(todo_userId todoData :=
         fs_todos app (todo_userId todoData) @
           [todoData\<lparr>todo_id := newId, todo_createdAt := now, todo_updatedAt := now,
                     todo_completedAt := None\<rparr>])\<rparr>)"

text \<open>
  The \<open>Partial<Todo>\<close> argument of \<open>updateTodo\<close> is modelled by the function that
  overrides the fields it gives.
\<close>

definition updateTodo :: "App \<Rightarrow> Date \<Rightarrow> string \<Rightarrow> (Todo \<Rightarrow> Todo) \<Rightarrow> unit outcome" where
  "updateTodo app now i updates =
     (case find (\<lambda>t. todo_id t = i) (app_todos app) of
        None \<Rightarrow> (Inr (), app)
      | Some todo \<Rightarrow>
         (case updateDoc (fs_todos app) (todo_userId todo) todo_id i
                 (\<lambda>d. (updates d)\<lparr>todo_updatedAt := now\<rparr>) of
            Inl e \<Rightarrow> (Inl e, app)
          | Inr coll \<Rightarrow> (Inr (), app\<lparr>fs_todos := coll\<rparr>)))"

definition deleteTodo :: "App \<Rightarrow> string \<Rightarrow> unit outcome" where
  "deleteTodo app i =
     (case find (\<lambda>t. todo_id t = i) (app_todos app) of
        None \<Rightarrow> (Inr (), app)
      | Some todo \<Rightarrow>
          (Inr (), app\<lparr>fs_todos := deleteDoc (fs_todos app) (todo_userId todo) todo_id i\<rparr>))"

text \<open>
  \<open>toggleTodoStatus\<close> takes \<open>updateTodo\<close> and \<open>createNextRecurrence\<close> from the store;
  \<open>createNextRecurrence\<close>, which it calls for a recurring todo that it has just completed,
  is a parameter here. Both clock readings of the completing branch are \<open>now\<close>.
\<close>

definition toggleTodoStatus ::
  "(App \<Rightarrow> Todo \<Rightarrow> string option outcome) \<Rightarrow> App \<Rightarrow> Date \<Rightarrow> string \<Rightarrow> unit outcome" where
  "toggleTodoStatus createNextRecurrence app now i =
     (case find (\<lambda>t. todo_id t = i) (app_todos app) of
        None \<Rightarrow> (Inr (), app)
      | Some todo \<Rightarrow>
          if todo_status todo = Todo_completed
          then updateTodo app now i
                 (\<lambda>t. t\<lparr>todo_status := Todo_pending, todo_completedAt := None\<rparr>)
          else
            (case updateTodo app now i
                    (\<lambda>t. t\<lparr>todo_status := Todo_completed, todo_completedAt := Some now\<rparr>) of
               (Inl e, app') \<Rightarrow> (Inl e, app')
             | (Inr u, app') \<Rightarrow>
                 if todo_isRecurring todo \<and> todo_recurrencePattern todo \<noteq> None
                 then (case createNextRecurrence app' todo of
                         (Inl e, app'') \<Rightarrow> (Inl e, app'')
                       | (Inr r, app'') \<Rightarrow> (Inr (), app''))
                 else (Inr (), app')))"

subsection \<open>The goals store\<close>

definition updateGoal :: "App \<Rightarrow> Date \<Rightarrow> string \<Rightarrow> (Goal \<Rightarrow> Goal) \<Rightarrow> unit outcome" where
  "updateGoal app now i updates =
     (case find (\<lambda>g. goal_id g = i) (app_goals app) of
        None \<Rightarrow> (Inr (), app)
      | Some goal \<Rightarrow>
         (case updateDoc (fs_goals app) (goal_userId goal) goal_id i
                 (\<lambda>d. (updates d)\<lparr>goal_updatedAt := now\<rparr>) of
            Inl e \<Rightarrow> (Inl e, app)
          | Inr coll \<Rightarrow> (Inr (), app\<lparr>fs_goals := coll\<rparr>)))"

definition deleteGoal :: "App \<Rightarrow> string \<Rightarrow> unit outcome" where
  "deleteGoal app i =
     (case find (\<lambda>g. goal_id g = i) (app_goals app) of
        None \<Rightarrow> (Inr (), app)
      | Some goal \<Rightarrow>
          (Inr (), app\<lparr>fs_goals := deleteDoc (fs_goals app) (goal_userId goal) goal_id i\<rparr>))"

subsection \<open>The inbox store\<close>

text \<open>
  The argument of \<open>addItem\<close>, \<open>Omit<InboxItem, 'id' | 'createdAt' | 'updatedAt'>\<close>
  (without \<open>originalContent\<close> and \<open>sourceDate\<close>, as in \<open>InboxItem\<close>).
\<close>

record InboxItemData =
  d_userId :: string
  d_source :: InboxSource
  d_status :: InboxStatus
  d_title :: string
  d_description :: string
  d_sourceId :: string
  d_sourceUrl :: "string option"
  d_sourceSender :: "string option"
  d_sourceChannel :: "string option"
  d_convertedToId :: "string option"
  d_convertedAt :: "Date option"

text \<open>\<open>addItem\<close> adds the document as it is given: it reads neither snapshot nor collection.\<close>

definition addItem :: "App \<Rightarrow> string \<Rightarrow> Date \<Rightarrow> InboxItemData \<Rightarrow> string outcome" where
  "addItem app newId now itemData =
     (Inr newId,
      app\<lparr>fs_inbox := (fs_inbox app)(d_userId itemData :=
         fs_inbox app (d_userId itemData) @
           [\<lparr>ii_id = newId, ii_userId = d_userId itemData, ii_source = d_source itemData,
             ii_status = d_status itemData, ii_title = d_title itemData,
             ii_description = d_description itemData, ii_sourceId = d_sourceId itemData,
             ii_sourceUrl = d_sourceUrl itemData, ii_sourceSender = d_sourceSender itemData,
             ii_sourceChannel = d_sourceChannel itemData,
             ii_convertedToId = d_convertedToId itemData, ii_convertedAt = None,
             ii_createdAt = now, ii_updatedAt = Some now\<rparr>])\<rparr>)"

definition dismissItem :: "App \<Rightarrow> Date \<Rightarrow> string \<Rightarrow> unit outcome" where
  "dismissItem app now i =
     (case find (\<lambda>it. ii_id it = i) (app_items app) of
        None \<Rightarrow> (Inr (), app)
      | Some item \<Rightarrow>
         (case updateDoc (fs_inbox app) (ii_userId item) ii_id i
                 (\<lambda>d. d\<lparr>ii_status := Inbox_dismissed, ii_updatedAt := Some now\<rparr>) of
            Inl e \<Rightarrow> (Inl e, app)
          | Inr coll \<Rightarrow> (Inr (), app\<lparr>fs_inbox := coll\<rparr>)))"

text \<open>
  \<open>convertToTodo\<close> looks the item up before it writes anything; the todo that \<open>addTodo\<close>
  has written stays when the update of the inbox item fails afterwards.
\<close>

definition convertToTodo :: "App \<Rightarrow> string \<Rightarrow> Date \<Rightarrow> string \<Rightarrow> Todo \<Rightarrow> string outcome" where
  "convertToTodo app newId now i todoData =
     (case find (\<lambda>it. ii_id it = i) (app_items app) of
        None \<Rightarrow> (Inl InboxItemNotFound, app)
      | Some item \<Rightarrow>
         (case addTodo app newId now
                 (todoData\<lparr>todo_source := Src_inbox, todo_sourceId := Some i\<rparr>) of
            (Inl e, app') \<Rightarrow> (Inl e, app')
          | (Inr todoId, app') \<Rightarrow>
              (case updateDoc (fs_inbox app') (ii_userId item) ii_id i
                      (\<lambda>d. d\<lparr>ii_status := Inbox_converted, ii_convertedToId := Some todoId,
                             ii_convertedAt := Some now, ii_updatedAt := Some now\<rparr>) of
                 Inl e \<Rightarrow> (Inl e, app')
               | Inr coll \<Rightarrow> (Inr todoId, app'\<lparr>fs_inbox := coll\<rparr>))))"

text \<open>
  An example state with one inbox item, one todo and one goal, and a ledger whose snapshot
  has not yet received the one document of its collection.
\<close>

definition todo_fields :: Todo where
  "todo_fields = \<lparr>todo_id = ''t0'', todo_userId = ''u1'', todo_categoryId = ''professional'',
     todo_goalId = None, todo_title = ''Review'', todo_description = [],
     todo_status = Todo_pending, todo_priority = Medium, todo_dueDate = None,
     todo_scheduledDate = None, todo_isRecurring = False, todo_recurrencePattern = None,
     todo_source = Src_manual, todo_sourceId = None, todo_tags = [], todo_createdAt = 0,
     todo_updatedAt = 0, todo_completedAt = None\<rparr>"

definition inbox_item :: InboxItem where
  "inbox_item = \<lparr>ii_id = ''i1'', ii_userId = ''u1'', ii_source = Inbox_slack,
     ii_status = Inbox_pending, ii_title = ''ping'', ii_description = ''ping'',
     ii_sourceId = ''1700000000.000100'', ii_sourceUrl = None, ii_sourceSender = Some ''U2'',
     ii_sourceChannel = Some ''C1'', ii_convertedToId = None, ii_convertedAt = None,
     ii_createdAt = 0, ii_updatedAt = Some 0\<rparr>"

definition goal_fields :: Goal where
  "goal_fields = \<lparr>goal_id = ''g0'', goal_userId = ''u1'', goal_categoryId = ''professional'',
     goal_type = Weekly, goal_title = ''Ship'', goal_description = [],
     goal_status = Goal_in_progress, goal_priority = Medium, goal_progress = 0,
     goal_parentGoalId = None, goal_startDate = None, goal_targetDate = None,
     goal_completedDate = None, goal_trackingMode = Manual, goal_targetDays = None,
     goal_trackingStartDate = None, goal_tags = [], goal_createdAt = 0, goal_updatedAt = 0\<rparr>"

definition sample_app :: App where
  "sample_app = \<lparr>app_items = [inbox_item], app_todos = [todo_fields],
     app_goals = [goal_fields],
     fs_inbox = (\<lambda>u. if u = ''u1'' then [inbox_item] else []),
     fs_todos = (\<lambda>u. if u = ''u1'' then [todo_fields] else []),
     fs_goals = (\<lambda>u. if u = ''u1'' then [goal_fields] else [])\<rparr>"

definition no_recurrence :: "App \<Rightarrow> Todo \<Rightarrow> string option outcome" where
  "no_recurrence app todo = (Inr None, app)"

definition ledger_lagging :: Tracking where
  "ledger_lagging = \<lparr>checkIns = [], currentUserId = Some ''u1'', fs_checkIns = [doc_done]\<rparr>"

section \<open>The pull synchronisation of Gmail (\<open>syncGmailToInbox\<close> of \<open>src/lib/integrations/google.ts\<close>)\<close>

record EmailMessage =
  em_id :: string
  em_threadId :: string
  em_from :: string
  em_to :: "string list"
  em_subject :: string
  em_snippet :: string
  em_receivedAt :: Date
  em_isRead :: bool
  em_labels :: "string list"

record sync_result =
  sr_synced :: nat
  sr_errors :: "string list"

text \<open>
  The \<open>for\<close> loop over the fetched emails, with the loop variables \<open>synced\<close>
  (here \<open>count\<close>) and \<open>errors\<close>. Each email comes with the id that Firestore gives its document and the clock
  reading at which it is added. \<open>addToInbox\<close> is the function argument of
  \<open>syncGmailToInbox\<close>; an exception it throws is caught and recorded.
\<close>

fun sync_emails ::
  "string \<Rightarrow> (App \<Rightarrow> string \<Rightarrow> Date \<Rightarrow> InboxItemData \<Rightarrow> string outcome)
     \<Rightarrow> (string \<times> Date \<times> EmailMessage) list \<Rightarrow> App \<Rightarrow> nat \<Rightarrow> string list
     \<Rightarrow> sync_result \<times> App" where
  "sync_emails userId addToInbox [] app count errors =
     (\<lparr>sr_synced = count, sr_errors = errors\<rparr>, app)"
| "sync_emails userId addToInbox ((newId, now, email) # rest) app count errors =
     (case addToInbox app newId now
             \<lparr>d_userId = userId, d_source = Inbox_email, d_status = Inbox_pending,
               d_title = em_subject email, d_description = em_snippet email,
               d_sourceId = em_id email,
               d_sourceUrl = Some (''https://mail.google.com/mail/u/0/#inbox/''
                                   @ em_threadId email),
               d_sourceSender = Some (em_from email), d_sourceChannel = None,
               d_convertedToId = None, d_convertedAt = None\<rparr> of
        (Inr docId, app') \<Rightarrow> sync_emails userId addToInbox rest app' (count + 1) errors
      | (Inl e, app') \<Rightarrow>
          sync_emails userId addToInbox rest app' count
            (errors @ [''Failed to sync email: '' @ em_subject email]))"

text \<open>
  \<open>fetched\<close> is what \<open>fetchEmails(query)\<close> gives: the unread emails that match, or the
  message of the exception it throws. The write of \<open>lastSyncAt\<close> to the user document,
  which is no inbox document, is left out. \<open>handleSyncGmail\<close> of
  \<open>src/pages/GoalsPage.tsx\<close> calls \<open>syncGmailToInbox(user.uid, addItem)\<close>.
\<close>

definition syncGmailToInbox ::
  "string \<Rightarrow> (App \<Rightarrow> string \<Rightarrow> Date \<Rightarrow> InboxItemData \<Rightarrow> string outcome) \<Rightarrow> App
     \<Rightarrow> string + (string \<times> Date \<times> EmailMessage) list \<Rightarrow> sync_result \<times> App" where
  "syncGmailToInbox userId addToInbox app fetched =
     (case fetched of
        Inl message \<Rightarrow> (\<lparr>sr_synced = 0, sr_errors = [message]\<rparr>, app)
      | Inr emails \<Rightarrow> sync_emails userId addToInbox emails app 0 [])"

text \<open>
  An unread email, and the inbox after one and after two runs of the synchronisation that
  both fetch it.
\<close>

definition unread_email :: EmailMessage where
  "unread_email = \<lparr>em_id = ''18c2f0a1b2c3d4e5'', em_threadId = ''18c2f0a1b2c3d4e5'',
     em_from = ''ann@example.com'', em_to = [''me@example.com''],
     em_subject = ''Quarterly review'', em_snippet = ''Please send the figures'',
     em_receivedAt = 1700000000000, em_isRead = False,
     em_labels = [''UNREAD'', ''IMPORTANT'', ''INBOX'']\<rparr>"

definition empty_app :: App where
  "empty_app = \<lparr>app_items = [], app_todos = [], app_goals = [],
     fs_inbox = (\<lambda>u. []), fs_todos = (\<lambda>u. []), fs_goals = (\<lambda>u. [])\<rparr>"

definition synced_once :: "sync_result \<times> App" where
  "synced_once =
     syncGmailToInbox ''u1'' addItem empty_app (Inr [(''i1'', 1700000100000, unread_email)])"

definition synced_twice :: "sync_result \<times> App" where
  "synced_twice =
     syncGmailToInbox ''u1'' addItem (snd synced_once)
       (Inr [(''i2'', 1700000200000, unread_email)])"

section \<open>The calendar behind \<open>Date\<close>\<close>

text \<open>
  The day and time-within-day of a time value, and the Gregorian calendar functions by which
  ECMAScript defines the getters and setters of \<open>Date\<close>.
\<close>

definition Day :: "Date \<Rightarrow> int" where
  "Day t = t div msPerDay"

definition TimeWithinDay :: "Date \<Rightarrow> int" where
  "TimeWithinDay t = t mod msPerDay"

definition MakeDate :: "int \<Rightarrow> int \<Rightarrow> Date" where
  "MakeDate day time = day * msPerDay + time"

text \<open>The day number of 1 January of year \<open>y\<close>, and the length of the year.\<close>

definition DayFromYear :: "int \<Rightarrow> int" where
  "DayFromYear y =
     365 * (y - 1970) + (y - 1969) div 4 - (y - 1901) div 100 + (y - 1601) div 400"

definition DaysInYear :: "int \<Rightarrow> int" where
  "DaysInYear y =
     (if y mod 4 \<noteq> 0 then 365 else if y mod 100 \<noteq> 0 then 366
      else if y mod 400 \<noteq> 0 then 365 else 366)"

text \<open>
  Consecutive years are 365 or 366 days apart; the walk of \<open>year_up\<close> below terminates
  because of it.
\<close>

lemma div_step:
  fixes x k :: int
  assumes "0 < k"
  shows "(x + 1) div k = x div k + (if (x + 1) mod k = 0 then 1 else 0)"
proof -
  define q r where "q = x div k" and "r = x mod k"
  have x: "x = k * q + r" and r: "0 \<le> r" "r < k"
    using assms by (simp_all add: q_def r_def)
  show ?thesis
  proof (cases "r + 1 = k")
    case True
    then have "x + 1 = k * (q + 1)"
      using x by (simp add: algebra_simps)
    then have "(x + 1) div k = q + 1" "(x + 1) mod k = 0"
      using assms by simp_all
    then show ?thesis by (simp add: q_def)
  next
    case False
    with r have r1: "0 < r + 1" "r + 1 < k" by simp_all
    have e: "x + 1 = k * q + (r + 1)"
      using x by simp
    have "(x + 1) div k = q"
      unfolding e using r1 assms by (simp add: div_pos_pos_trivial)
    moreover have "(x + 1) mod k = r + 1"
      unfolding e using r1 assms by (simp add: mod_pos_pos_trivial)
    ultimately show ?thesis
      using r1 by (simp add: q_def)
  qed
qed

lemma mod_shift:
  fixes y k c :: int
  shows "(y - k * c) mod k = y mod k"
proof -
  have "(y - k * c) mod k = (y + k * (- c)) mod k" by simp
  also have "\<dots> = y mod k" by (rule mod_mult_self2)
  finally show ?thesis .
qed

lemma DayFromYear_Suc: "DayFromYear (y + 1) = DayFromYear y + DaysInYear y"
proof -
  have a: "(y + 1 - 1969) div 4 = (y - 1969) div 4 + (if y mod 4 = 0 then 1 else 0)"
    using div_step [of 4 "y - 1969"] mod_shift [of y 4 492] by simp
  have b: "(y + 1 - 1901) div 100 = (y - 1901) div 100 + (if y mod 100 = 0 then 1 else 0)"
    using div_step [of 100 "y - 1901"] mod_shift [of y 100 19] by simp
  have c: "(y + 1 - 1601) div 400 = (y - 1601) div 400 + (if y mod 400 = 0 then 1 else 0)"
    using div_step [of 400 "y - 1601"] mod_shift [of y 400 4] by simp
  have d: "y mod 4 = 0" if "y mod 100 = 0"
    using that mod_mod_cancel [of 4 100 y] by simp
  have e: "y mod 100 = 0" if "y mod 400 = 0"
    using that mod_mod_cancel [of 100 400 y] by simp
  show ?thesis
    unfolding DayFromYear_def DaysInYear_def a b c using d e by auto
qed

lemma DaysInYear_bounds: "365 \<le> DaysInYear y" "DaysInYear y \<le> 366"
  by (simp_all add: DaysInYear_def)

text \<open>
  \<open>YearFromTime\<close> is the largest year whose first day is not after the given day. It is
  computed by walking up from an estimate that is never too large.
\<close>

function year_up :: "int \<Rightarrow> int \<Rightarrow> int" where
  "year_up d y = (if DayFromYear (y + 1) \<le> d then year_up d (y + 1) else y)"
  by pat_completeness auto
termination
proof (relation "measure (\<lambda>(d, y). nat (d - DayFromYear y))")
  show "wf (measure (\<lambda>(d, y). nat (d - DayFromYear y)))" by simp
next
  fix d y :: int
  assume "DayFromYear (y + 1) \<le> d"
  moreover have "DayFromYear y < DayFromYear (y + 1)"
    using DaysInYear_bounds(1) [of y] by (simp add: DayFromYear_Suc)
  ultimately show "((d, y + 1), (d, y)) \<in> measure (\<lambda>(d, y). nat (d - DayFromYear y))"
    by simp
qed

declare year_up.simps [simp del]

definition year_estimate :: "int \<Rightarrow> int" where
  "year_estimate d = 1970 + (if 0 \<le> d then d div 366 else d div 365) - 1"

definition YearFromDay :: "int \<Rightarrow> int" where
  "YearFromDay d = year_up d (year_estimate d)"

text \<open>The month tables: days before month \<open>m\<close> (0 to 11), and the month of a day of the year.\<close>

definition InLeapYear :: "int \<Rightarrow> int" where
  "InLeapYear y = (if DaysInYear y = 366 then 1 else 0)"

definition DayFromMonth :: "int \<Rightarrow> int \<Rightarrow> int" where
  "DayFromMonth m l =
     (if m = 0 then 0 else if m = 1 then 31 else if m = 2 then 59 + l
      else if m = 3 then 90 + l else if m = 4 then 120 + l else if m = 5 then 151 + l
      else if m = 6 then 181 + l else if m = 7 then 212 + l else if m = 8 then 243 + l
      else if m = 9 then 273 + l else if m = 10 then 304 + l else 334 + l)"

definition MonthFromDayInYear :: "int \<Rightarrow> int \<Rightarrow> int" where
  "MonthFromDayInYear dw l =
     (if dw < 31 then 0 else if dw < 59 + l then 1 else if dw < 90 + l then 2
      else if dw < 120 + l then 3 else if dw < 151 + l then 4 else if dw < 181 + l then 5
      else if dw < 212 + l then 6 else if dw < 243 + l then 7 else if dw < 273 + l then 8
      else if dw < 304 + l then 9 else if dw < 334 + l then 10 else 11)"

definition MonthFromDay :: "int \<Rightarrow> int" where
  "MonthFromDay d =
     MonthFromDayInYear (d - DayFromYear (YearFromDay d)) (InLeapYear (YearFromDay d))"

definition DateFromDay :: "int \<Rightarrow> int" where
  "DateFromDay d =
     d - DayFromYear (YearFromDay d)
       - DayFromMonth (MonthFromDay d) (InLeapYear (YearFromDay d)) + 1"

text \<open>
  \<open>MakeDay\<close> takes any month and date: months beyond 0..11 carry into the year, and the
  date counts on from the first of the month, before or beyond its end.
\<close>

definition MakeDay :: "int \<Rightarrow> int \<Rightarrow> int \<Rightarrow> int" where
  "MakeDay year month dt =
     DayFromYear (year + month div 12)
       + DayFromMonth (month mod 12) (InLeapYear (year + month div 12)) + dt - 1"

text \<open>
  A \<open>Date\<close> object holds a time value of at most 8.64e15 ms either side of the epoch, or
  \<open>NaN\<close> (an Invalid Date): \<open>TimeClip\<close> makes every time value out of that range
  \<open>NaN\<close>. A \<open>Date\<close> object is a \<open>Date option\<close>, \<open>None\<close> for the Invalid Date.
\<close>

type_synonym DateObject = "Date option"

definition TimeClip :: "int \<Rightarrow> DateObject" where
  "TimeClip time = (if \<bar>time\<bar> > 8640000000000000 then None else Some time)"

text \<open>
  The getters and setters of \<open>Date\<close> that the recurrence calculator calls, on a valid
  date. Every setter ends with \<open>TimeClip\<close>, so it may leave an Invalid Date.
\<close>

definition getFullYear :: "Date \<Rightarrow> int" where
  "getFullYear t = YearFromDay (Day t)"

definition getMonth :: "Date \<Rightarrow> int" where
  "getMonth t = MonthFromDay (Day t)"

definition getDate :: "Date \<Rightarrow> int" where
  "getDate t = DateFromDay (Day t)"

definition setDate :: "Date \<Rightarrow> int \<Rightarrow> DateObject" where
  "setDate t dt =
     TimeClip (MakeDate (MakeDay (getFullYear t) (getMonth t) dt) (TimeWithinDay t))"

definition setMonth :: "Date \<Rightarrow> int \<Rightarrow> DateObject" where
  "setMonth t month =
     TimeClip (MakeDate (MakeDay (getFullYear t) month (getDate t)) (TimeWithinDay t))"

definition setFullYear :: "Date \<Rightarrow> int \<Rightarrow> DateObject" where
  "setFullYear t year =
     TimeClip (MakeDate (MakeDay year (getMonth t) (getDate t)) (TimeWithinDay t))"

section \<open>Time zones and the streak (\<open>getStreakForGoal\<close> of \<open>src/stores/trackingStore.ts\<close>)\<close>

text \<open>
  A time zone is the offset of its local time from UTC, in milliseconds, before its first
  transition, and its transitions in increasing order: the instant from which another
  offset holds, and that offset. In this section a \<open>Date\<close> is its UTC time value.

  \<open>offset_at\<close> is ECMAScript's \<open>LocalTZA(t, true)\<close>, the offset in force at the instant
  \<open>t\<close>. \<open>offset_of_local\<close> is \<open>LocalTZA(t, false)\<close>, the offset with which the local
  time \<open>t\<close> is read: a local time that a transition skips or repeats is read with the
  offset before the transition.
\<close>

record TimeZone =
  tz_offset :: int
  tz_transitions :: "(int \<times> int) list"

fun offset_at :: "int \<Rightarrow> (int \<times> int) list \<Rightarrow> int \<Rightarrow> int" where
  "offset_at offset [] t = offset"
| "offset_at offset ((instant, offset') # rest) t =
     (if t < instant then offset else offset_at offset' rest t)"

fun offset_of_local :: "int \<Rightarrow> (int \<times> int) list \<Rightarrow> int \<Rightarrow> int" where
  "offset_of_local offset [] t = offset"
| "offset_of_local offset ((instant, offset') # rest) t =
     (if t - max offset offset' < instant then offset else offset_of_local offset' rest t)"

definition LocalTime :: "TimeZone \<Rightarrow> Date \<Rightarrow> int" where
  "LocalTime z t = t + offset_at (tz_offset z) (tz_transitions z) t"

definition UTC :: "TimeZone \<Rightarrow> int \<Rightarrow> int" where
  "UTC z t = t - offset_of_local (tz_offset z) (tz_transitions z) t"

text \<open>
  \<open>normalizeDate\<close> in a time zone: a copy with \<open>setHours(0, 0, 0, 0)\<close>, the local day of
  the date at time 0 of the day, read back as an instant. \<open>getDate\<close> and \<open>setDate\<close> in a
  time zone: \<open>setDate\<close> keeps the local time within the day.
\<close>

definition normalizeDate_in :: "TimeZone \<Rightarrow> Date \<Rightarrow> DateObject" where
  "normalizeDate_in z date = TimeClip (UTC z (MakeDate (Day (LocalTime z date)) 0))"

definition getDate_in :: "TimeZone \<Rightarrow> Date \<Rightarrow> int" where
  "getDate_in z t = DateFromDay (Day (LocalTime z t))"

definition setDate_in :: "TimeZone \<Rightarrow> Date \<Rightarrow> int \<Rightarrow> DateObject" where
  "setDate_in z t dt =
     TimeClip (UTC z (MakeDate
       (MakeDay (YearFromDay (Day (LocalTime z t))) (MonthFromDay (Day (LocalTime z t))) dt)
       (TimeWithinDay (LocalTime z t))))"

text \<open>
  \<open>getStreakForGoal\<close>: the completed check-ins of the goal, sorted by descending time, are
  walked by the \<open>for\<close> loop, here \<open>streak_loop\<close> with the loop variables
  \<open>currentDate\<close> and \<open>streak\<close>. The cursor is moved by
  \<open>currentDate.setDate(currentDate.getDate() - 1)\<close>. A comparison with an Invalid Date is
  false, so the loop goes on to the next check-in. The clock reading \<open>new Date()\<close> is the
  input \<open>now\<close>, and \<open>z\<close> is the time zone of the browser.
\<close>

fun streak_loop :: "TimeZone \<Rightarrow> DailyCheckIn list \<Rightarrow> DateObject \<Rightarrow> nat \<Rightarrow> nat" where
  "streak_loop z [] currentDate streak = streak"
| "streak_loop z (checkIn # rest) currentDate streak =
     (case normalizeDate_in z (ci_date checkIn) of
        None \<Rightarrow> streak_loop z rest currentDate streak
      | Some checkInDate \<Rightarrow>
          (case currentDate of
             None \<Rightarrow> streak_loop z rest currentDate streak
           | Some cur \<Rightarrow>
               if checkInDate = cur
               then streak_loop z rest (setDate_in z cur (getDate_in z cur - 1)) (streak + 1)
               else if checkInDate < cur then streak
               else streak_loop z rest currentDate streak))"

definition getStreakForGoal :: "TimeZone \<Rightarrow> Date \<Rightarrow> Tracking \<Rightarrow> string \<Rightarrow> nat" where
  "getStreakForGoal z now tr goalId =
     (let checkIns = sort_key (\<lambda>c. - ci_date c)
                       (filter ci_completed (getCheckInsForGoal tr goalId))
      in if length checkIns = 0 then 0
         else streak_loop z checkIns (normalizeDate_in z now) 0)"

text \<open>
  The days (as normalized dates) on which the snapshot holds a completed record of the goal,
  and the number of the local calendar day of a date.
\<close>

definition completed_days :: "TimeZone \<Rightarrow> Tracking \<Rightarrow> string \<Rightarrow> Date set" where
  "completed_days z tr goalId =
     {d. \<exists>c \<in> set (checkIns tr).
           ci_goalId c = goalId \<and> ci_completed c \<and> normalizeDate_in z (ci_date c) = Some d}"

definition local_day :: "TimeZone \<Rightarrow> Date \<Rightarrow> int" where
  "local_day z t = Day (LocalTime z t)"

text \<open>
  Example snapshots for goal \<open>g1\<close> in the zone UTC, read at 10:00 on day 20: completed
  records on days 20, 19 and 18 (and an older one on day 15), and a single completed record
  on day 18.
\<close>

definition utc :: TimeZone where
  "utc = \<lparr>tz_offset = 0, tz_transitions = []\<rparr>"

definition mk_checkIn :: "string \<Rightarrow> string \<Rightarrow> Date \<Rightarrow> bool \<Rightarrow> DailyCheckIn" where
  "mk_checkIn i g d b = \<lparr>ci_id = i, ci_userId = ''u1'', ci_goalId = g, ci_date = d,
      ci_completed = b, ci_notes = None, ci_createdAt = d\<rparr>"

definition ledger_three :: Tracking where
  "ledger_three =
     \<lparr>checkIns = [mk_checkIn ''a'' ''g1'' (20 * 86400000) True,
                   mk_checkIn ''b'' ''g1'' (19 * 86400000) True,
                   mk_checkIn ''c'' ''g2'' (19 * 86400000) True,
                   mk_checkIn ''d'' ''g1'' (18 * 86400000) True,
                   mk_checkIn ''e'' ''g1'' (15 * 86400000) True],
      currentUserId = Some ''u1'', fs_checkIns = []\<rparr>"

definition ledger_gap :: Tracking where
  "ledger_gap =
     \<lparr>checkIns = [mk_checkIn ''d'' ''g1'' (18 * 86400000) True],
      currentUserId = Some ''u1'', fs_checkIns = []\<rparr>"

text \<open>
  The zone America/Santiago around 8 September 2024: UTC-4 until 04:00 UTC of that day
  (1725768000000), which is local midnight, and UTC-3 from then on, so that the local day
  starts at 01:00. The snapshot holds a completed record of goal \<open>g1\<close> for each of 8, 7 and
  6 September, with the dates that \<open>normalizeDate\<close> gives in that zone: 04:00 UTC of each
  day. It is read at 10:00 local time on 8 September (1725800400000).
\<close>

definition santiago :: TimeZone where
  "santiago = \<lparr>tz_offset = - 14400000, tz_transitions = [(1725768000000, - 10800000)]\<rparr>"

definition ledger_santiago :: Tracking where
  "ledger_santiago =
     \<lparr>checkIns = [mk_checkIn ''a'' ''g1'' 1725768000000 True,
                   mk_checkIn ''b'' ''g1'' 1725681600000 True,
                   mk_checkIn ''c'' ''g1'' 1725595200000 True],
      currentUserId = Some ''u1'', fs_checkIns = []\<rparr>"

section \<open>The recurrence calculator (\<open>getNextOccurrenceDate\<close> of the todos store, \<open>src/unnamed/part_007\<close>)\<close>

text \<open>
  \<open>step\<close> is the \<open>switch\<close> on the frequency: the \<open>Date\<close> object that \<open>next\<close> is
  after it, for a valid \<open>currentDate\<close>. \<open>if (pattern.dayOfMonth)\<close> is false for an absent
  and for a zero day of month; \<open>setDate\<close> takes the integer part of its argument
  (\<open>ToIntegerOrInfinity\<close>, which truncates towards zero), and on an Invalid Date it
  leaves the date invalid.
  The function returns \<open>null\<close> (\<open>None\<close>) or the object \<open>next\<close>, which may be an
  Invalid Date (\<open>Some None\<close>): \<open>next > endDate\<close> is false for an Invalid Date, and
  \<open>pattern.endDate &&\<close> is false for an absent end date.
\<close>

definition ToIntegerOrInfinity :: "rat \<Rightarrow> int" where
  "ToIntegerOrInfinity x = (if 0 \<le> x then \<lfloor>x\<rfloor> else \<lceil>x\<rceil>)"

definition step :: "Date \<Rightarrow> RecurrencePattern \<Rightarrow> DateObject" where
  "step next pattern =
     (case frequency pattern of
        Freq_daily \<Rightarrow> setDate next (getDate next + interval pattern)
      | Freq_weekly \<Rightarrow> setDate next (getDate next + 7 * interval pattern)
      | Freq_monthly \<Rightarrow>
          (case setMonth next (getMonth next + interval pattern) of
             None \<Rightarrow> None
           | Some next1 \<Rightarrow>
               (case dayOfMonth pattern of
                  None \<Rightarrow> Some next1
                | Some dm \<Rightarrow>
                    if dm \<noteq> 0 then setDate next1 (ToIntegerOrInfinity dm) else Some next1))
      | Freq_yearly \<Rightarrow> setFullYear next (getFullYear next + interval pattern))"

definition getNextOccurrenceDate :: "Date \<Rightarrow> RecurrencePattern \<Rightarrow> DateObject option" where
  "getNextOccurrenceDate currentDate pattern =
     (if (case endDate pattern of None \<Rightarrow> False | Some e \<Rightarrow> currentDate \<ge> e) then None
      else let next = step currentDate pattern in
        if (case endDate pattern of
              None \<Rightarrow> False
            | Some e \<Rightarrow> (case next of None \<Rightarrow> False | Some n \<Rightarrow> n > e))
        then None
        else Some next)"

text \<open>
  Months counted from year 0 (\<open>12 * year + month\<close>): the first day of a month, and the
  month of a day.
\<close>

definition month_first :: "int \<Rightarrow> int" where
  "month_first M = DayFromYear (M div 12) + DayFromMonth (M mod 12) (InLeapYear (M div 12))"

definition abs_month :: "int \<Rightarrow> int" where
  "abs_month d = 12 * YearFromDay d + MonthFromDay d"

text \<open>
  Example patterns; 1706659200000 is 31 January 2024, 1706745600000 is 1 February 2024,
  1705708800000 is 20 January 2024 and 1714435200000 is 30 April 2024.
\<close>

definition daily_until :: "Date \<Rightarrow> RecurrencePattern" where
  "daily_until e = \<lparr>frequency = Freq_daily, interval = 1, daysOfWeek = None,
     dayOfMonth = None, endDate = Some e\<rparr>"

definition daily :: RecurrencePattern where
  "daily = \<lparr>frequency = Freq_daily, interval = 1, daysOfWeek = None,
     dayOfMonth = None, endDate = None\<rparr>"

definition monthly_on :: "rat \<Rightarrow> RecurrencePattern" where
  "monthly_on dm = \<lparr>frequency = Freq_monthly, interval = 1, daysOfWeek = None,
     dayOfMonth = Some dm, endDate = None\<rparr>"

section \<open>Goal progress (\<open>src/hooks/useGoalProgress.ts\<close>) and check-in progress\<close>

text \<open>
  \<open>calculateProgress\<close> of the hook, over the snapshots \<open>goals\<close> and \<open>todos\<close>. It calls
  itself on every child and nothing bounds the depth, so the model counts the depth down:
  \<open>None\<close> is a call that did not return within \<open>fuel\<close> nested calls. Progress values are
  integers; \<open>reduce\<close> adds the children's values, and the division and the multiplication
  are double operations.
\<close>

fun calculateProgress_goal :: "nat \<Rightarrow> Goal list \<Rightarrow> Todo list \<Rightarrow> string \<Rightarrow> int option" where
  "calculateProgress_goal 0 goals todos goalId = None"
| "calculateProgress_goal (Suc fuel) goals todos goalId =
     (case find (\<lambda>g. goal_id g = goalId) goals of
        None \<Rightarrow> Some 0
      | Some goal \<Rightarrow>
          let childGoals = filter (\<lambda>g. goal_parentGoalId g = Some goalId) goals;
              linkedTodos = filter (\<lambda>t. todo_goalId t = Some goalId) todos
          in if length childGoals > 0 then
               (case those (map (\<lambda>child. calculateProgress_goal fuel goals todos (goal_id child))
                              childGoals) of
                  None \<Rightarrow> None
                | Some ps \<Rightarrow>
                    Some (Math_round (fl (of_int (sum_list ps) / of_nat (length childGoals)))))
             else if length linkedTodos > 0 then
               (let completedTodos =
                      length (filter (\<lambda>t. todo_status t = Todo_completed) linkedTodos)
                in Some (Math_round
                     (fl (fl (of_nat completedTodos / of_nat (length linkedTodos)) * 100))))
             else if goal_status goal = Goal_completed then Some 100
             else if goal_status goal = Goal_not_started then Some 0
             else if goal_status goal = Goal_cancelled then Some 0
             else Some (goal_progress goal))"

text \<open>
  \<open>calculateProgress\<close> of \<open>trackingStore.ts\<close>. \<open>targetDays\<close> is a count; for 0 the
  quotient is \<open>NaN\<close> (here \<open>None\<close>) or \<open>Infinity\<close>, which \<open>Math.min\<close> caps at 100. The
  third parameter is not read.
\<close>

definition calculateProgress_tracking :: "Tracking \<Rightarrow> string \<Rightarrow> nat \<Rightarrow> Date \<Rightarrow> int option" where
  "calculateProgress_tracking tr goalId targetDays trackingStartDate =
     (let checkIns = getCheckInsForGoal tr goalId;
          completedDays = length (filter ci_completed checkIns)
      in if targetDays = 0 then (if completedDays = 0 then None else Some 100)
         else Some (min 100 (Math_round
                (fl (fl (of_nat completedDays / of_nat targetDays) * 100)))))"

text \<open>The children of a goal, and a hierarchy in which every child ranks below its parent.\<close>

definition childGoals_of :: "Goal list \<Rightarrow> string \<Rightarrow> Goal list" where
  "childGoals_of goals goalId = filter (\<lambda>g. goal_parentGoalId g = Some goalId) goals"

definition acyclic_by :: "(string \<Rightarrow> nat) \<Rightarrow> Goal list \<Rightarrow> bool" where
  "acyclic_by rank goals \<longleftrightarrow>
     (\<forall>g\<in>set goals. \<forall>p. goal_parentGoalId g = Some p \<longrightarrow> rank (goal_id g) < rank p)"

text \<open>
  Examples: a completed weekly goal with a linked todo and two daily children at 40 and 41,
  and a ledger with 23 completed check-ins of goal \<open>g1\<close>.
\<close>

definition mk_goal :: "string \<Rightarrow> string option \<Rightarrow> GoalType \<Rightarrow> GoalStatus \<Rightarrow> int \<Rightarrow> Goal" where
  "mk_goal i parent ty st p =
     \<lparr>goal_id = i, goal_userId = ''u1'', goal_categoryId = ''professional'', goal_type = ty,
      goal_title = i, goal_description = [], goal_status = st, goal_priority = Medium,
      goal_progress = p, goal_parentGoalId = parent, goal_startDate = None,
      goal_targetDate = None, goal_completedDate = None, goal_trackingMode = Manual,
      goal_targetDays = None, goal_trackingStartDate = None, goal_tags = [],
      goal_createdAt = 0, goal_updatedAt = 0\<rparr>"

definition family :: "Goal list" where
  "family = [mk_goal ''p'' None Weekly Goal_completed 7,
             mk_goal ''c1'' (Some ''p'') Daily Goal_in_progress 40,
             mk_goal ''c2'' (Some ''p'') Daily Goal_on_hold 41]"

definition family_todos :: "Todo list" where
  "family_todos = [todo_fields\<lparr>todo_goalId := Some ''p''\<rparr>]"

definition family_rank :: "string \<Rightarrow> nat" where
  "family_rank i = (if i = ''p'' then 1 else 0)"

definition ledger_23 :: Tracking where
  "ledger_23 =
     \<lparr>checkIns = map (\<lambda>i. mk_checkIn (replicate (Suc i) CHR ''c'') ''g1''
                          (int i * 86400000) True) [0..<23],
      currentUserId = Some ''u1'', fs_checkIns = []\<rparr>"

section \<open>Properties of double rounding\<close>

lemma pow2_nat_powi: "0 \<le> k \<Longrightarrow> (2::rat) ^ nat k = 2 powi k"
  by (simp add: power_int_nonneg_exp)

lemma bitlen_bounds_rat:
  assumes "0 < a"
  shows "2 powi (bitlen a - 1) \<le> (of_int a :: rat)" and "(of_int a :: rat) < 2 powi bitlen a"
proof -
  from bitlen_bounds [OF assms]
  have lo: "2 ^ nat (bitlen a - 1) \<le> a" and hi: "a < 2 ^ nat (bitlen a)"
    by simp_all
  have pos: "1 \<le> bitlen a"
    using assms bitlen_eq_zero_iff [of a] bitlen_nonneg [of a] by (cases "bitlen a = 0") simp_all
  from lo have "(of_int (2 ^ nat (bitlen a - 1)) :: rat) \<le> of_int a"
    by (simp only: of_int_le_iff)
  then show "2 powi (bitlen a - 1) \<le> (of_int a :: rat)"
    using pos by (simp add: pow2_nat_powi)
  from hi have "(of_int a :: rat) < of_int (2 ^ nat (bitlen a))"
    by (simp only: of_int_less_iff)
  then show "(of_int a :: rat) < 2 powi bitlen a"
    using pos by (simp add: pow2_nat_powi)
qed

lemma ilog2_bounds:
  assumes "0 < x"
  shows "2 powi (ilog2 x) \<le> x" and "x < 2 powi (ilog2 x + 1)"
proof -
  obtain a b where q: "quotient_of x = (a, b)"
    by (cases "quotient_of x")
  then have b: "0 < b" and x: "x = of_int a / of_int b"
    by (simp_all add: quotient_of_denom_pos quotient_of_div)
  from assms x b have a: "0 < a"
    by (simp add: zero_less_divide_iff)
  define k where "k = bitlen a - bitlen b"
  have k1: "k + 1 = bitlen a - (bitlen b - 1)" and k2: "k - 1 = bitlen a - 1 - bitlen b"
    by (simp_all add: k_def)
  have "x < 2 powi bitlen a / 2 powi (bitlen b - 1)"
    unfolding x using bitlen_bounds_rat [OF a] bitlen_bounds_rat [OF b] b a
    by (intro frac_less) simp_all
  also have "\<dots> = 2 powi (k + 1)"
    unfolding k1 by (rule power_int_diff [symmetric]) simp
  finally have hi: "x < 2 powi (k + 1)" .
  have "2 powi (k - 1) = (2::rat) powi (bitlen a - 1) / 2 powi bitlen b"
    unfolding k2 by (rule power_int_diff) simp
  also have "\<dots> < x"
    unfolding x using bitlen_bounds_rat [OF a] bitlen_bounds_rat [OF b] b a
    by (intro frac_less2) simp_all
  finally have lo: "2 powi (k - 1) < x" .
  have i: "ilog2 x = (if 2 powi k \<le> x then k else k - 1)"
    by (simp add: ilog2_def q k_def Let_def)
  show "2 powi (ilog2 x) \<le> x"
    using lo by (simp add: i)
  show "x < 2 powi (ilog2 x + 1)"
    using hi by (simp add: i)
qed

lemma round_half_even_error: "\<bar>of_int (round_half_even y) - y\<bar> \<le> 1 / 2"
proof -
  have "of_int \<lfloor>y\<rfloor> \<le> y" "y < of_int \<lfloor>y\<rfloor> + 1"
    by linarith+
  then show ?thesis
    by (auto simp: round_half_even_def Let_def abs_le_iff)
qed

lemma round_half_even_of_int: "round_half_even (of_int m) = m"
  by (simp add: round_half_even_def)

lemma fl_error: "\<bar>fl x - x\<bar> \<le> \<bar>x\<bar> / 2 ^ 53"
proof (cases "x = 0")
  case True
  then show ?thesis by (simp add: fl_def)
next
  case False
  define a where "a = \<bar>x\<bar>"
  define e where "e = ilog2 a - 52"
  define m where "m = round_half_even (a / 2 powi e)"
  have a: "0 < a"
    using False by (simp add: a_def)
  have p: "(0::rat) < 2 powi e"
    by simp
  have "fl x = sgn x * of_int m * 2 powi e"
    using False by (simp add: fl_def Let_def a_def e_def m_def)
  moreover have "x = sgn x * a"
    by (simp add: a_def sgn_mult_abs)
  ultimately have "fl x - x = sgn x * (of_int m * 2 powi e - a)"
    by (simp add: algebra_simps)
  then have "\<bar>fl x - x\<bar> = \<bar>of_int m * 2 powi e - a\<bar>"
    using False by (simp add: abs_mult abs_sgn_eq)
  also have "of_int m * 2 powi e - a = (of_int m - a / 2 powi e) * 2 powi e"
    using p by (simp add: algebra_simps)
  also have "\<bar>\<dots>\<bar> = \<bar>of_int m - a / 2 powi e\<bar> * 2 powi e"
    using p by (simp add: abs_mult)
  also have "\<dots> \<le> 1 / 2 * 2 powi e"
    using round_half_even_error [of "a / 2 powi e"] p
    unfolding m_def by (intro mult_right_mono) simp_all
  also have "\<dots> = 2 powi (ilog2 a) / 2 ^ 53"
    by (simp add: e_def power_int_diff)
  also have "\<dots> \<le> a / 2 ^ 53"
    using ilog2_bounds(1) [OF a] by (simp add: divide_right_mono)
  finally show ?thesis
    by (simp add: a_def)
qed


lemma ilog2_less:
  assumes "0 < x" and "x < 2 powi j"
  shows "ilog2 x < j"
proof (rule ccontr)
  assume "\<not> ilog2 x < j"
  then have "(2::rat) powi j \<le> 2 powi ilog2 x"
    by (intro power_int_increasing) simp_all
  with ilog2_bounds(1) [OF assms(1)] assms(2) show False
    by simp
qed

lemma fl_half_integer:
  assumes "\<bar>h\<bar> < 2 ^ 53"
  shows "fl (of_int h / 2) = of_int h / 2"
proof (cases "h = 0")
  case True
  then show ?thesis by (simp add: fl_def)
next
  case False
  define x :: rat where "x = of_int h / 2"
  define a where "a = \<bar>x\<bar>"
  define e where "e = ilog2 a - 52"
  have a: "0 < a" and ah: "a = of_int \<bar>h\<bar> / 2"
    using False by (simp_all add: a_def x_def)
  from assms have "(of_int \<bar>h\<bar> :: rat) < of_int (2 ^ 53)"
    by (simp only: of_int_less_iff)
  then have "a < 2 powi 52"
    by (simp add: ah)
  with a have "ilog2 a < 52"
    by (rule ilog2_less)
  then have e: "e \<le> - 1"
    by (simp add: e_def)
  define j where "j = nat (- e - 1)"
  have ej: "e = - (int j + 1)"
    using e by (simp add: j_def)
  from ej have e2: "e = - int (j + 1)"
    by simp
  have "(2::rat) powi e = 2 powi (- int (j + 1))"
    by (simp only: e2)
  also have "\<dots> = 1 / 2 powi int (j + 1)"
    by (rule power_int_minus_divide)
  also have "\<dots> = 1 / 2 ^ (j + 1)"
    by (simp only: power_int_of_nat)
  finally have p: "(2::rat) powi e = 1 / 2 ^ (j + 1)" .
  have "a / 2 powi e = of_int (\<bar>h\<bar> * 2 ^ j)"
    by (simp add: p ah)
  then have "of_int (round_half_even (a / 2 powi e)) = a / 2 powi e"
    by (simp only: round_half_even_of_int)
  then have "fl x = sgn x * (a / 2 powi e) * 2 powi e"
    using False by (simp add: fl_def Let_def a_def e_def x_def)
  also have "\<dots> = sgn x * a"
    by simp
  also have "\<dots> = x"
    by (simp add: a_def sgn_mult_abs)
  finally show ?thesis
    by (simp add: x_def)
qed

lemma Math_round_fl_div:
  fixes s n :: int
  assumes n: "0 < n" and s: "\<bar>s\<bar> < 2 ^ 52"
  shows "Math_round (fl (of_int s / of_int n)) = (2 * s + n) div (2 * n)"
proof -
  define x :: rat where "x = of_int s / of_int n"
  define q where "q = (2 * s + n) div (2 * n)"
  define r where "r = (2 * s + n) mod (2 * n)"
  have r: "0 \<le> r" "r < 2 * n"
    using n by (simp_all add: r_def)
  have qr: "2 * s + n = q * (2 * n) + r"
    by (simp only: q_def r_def div_mult_mod_eq)
  have N: "(0::rat) < of_int n"
    using n by simp
  have "of_int (2 * s + n) = (of_int (q * (2 * n) + r) :: rat)"
    by (simp only: qr)
  then have y: "x + 1 / 2 = of_int q + of_int r / (2 * of_int n)"
    using N by (simp add: x_def field_simps)
  show ?thesis
  proof (cases "r = 0")
    case True
    with y have hx: "x = of_int (2 * q - 1) / 2"
      by (simp add: field_simps)
    have b: "\<bar>2 * q - 1\<bar> < 2 ^ 53"
    proof -
      have "\<bar>x\<bar> \<le> \<bar>of_int s\<bar>"
        using n by (simp add: x_def abs_divide divide_le_eq mult_le_cancel_left1)
      also have "\<dots> < of_int (2 ^ 52)"
        using s by (simp only: of_int_abs [symmetric] of_int_less_iff)
      finally have "\<bar>of_int (2 * q - 1) / (2::rat)\<bar> < 2 ^ 52"
        using hx by simp
      then have "(of_int \<bar>2 * q - 1\<bar> :: rat) < of_int (2 ^ 53)"
        by (simp add: abs_divide)
      then show ?thesis
        by (simp only: of_int_less_iff)
    qed
    have "fl (of_int (2 * q - 1) / 2) = of_int (2 * q - 1) / 2"
      by (rule fl_half_integer [OF b])
    then have "fl x = x"
      by (simp only: hx [symmetric])
    with y True show ?thesis
      by (simp add: Math_round_def x_def [symmetric] q_def [symmetric])
  next
    case False
    with r have r1: "1 \<le> r" "r + 1 \<le> 2 * n"
      by simp_all
    define \<delta> where "\<delta> = fl x - x"
    have "\<bar>x\<bar> / 2 ^ 53 < 1 / (2 * of_int n)"
    proof -
      have "\<bar>of_int s\<bar> < (of_int (2 ^ 52) :: rat)"
        using s by (simp only: of_int_abs [symmetric] of_int_less_iff)
      then have "\<bar>x\<bar> < 2 ^ 52 / of_int n"
        using N by (simp add: x_def abs_divide divide_strict_right_mono)
      then have "\<bar>x\<bar> / 2 ^ 53 < 2 ^ 52 / of_int n / 2 ^ 53"
        by (simp add: divide_strict_right_mono)
      then show ?thesis
        by simp
    qed
    with fl_error [of x] have d: "\<bar>\<delta>\<bar> < 1 / (2 * of_int n)"
      by (simp add: \<delta>_def)
    have lo: "1 / (2 * of_int n) \<le> of_int r / (2 * rat_of_int n)"
      using r1(1) N by (simp add: divide_le_cancel)
    have hi: "of_int r / (2 * rat_of_int n) + 1 / (2 * of_int n) \<le> 1"
    proof -
      have "of_int (r + 1) \<le> (of_int (2 * n) :: rat)"
        using r1(2) by (simp only: of_int_le_iff)
      then show ?thesis
        using N by (simp add: field_simps)
    qed
    have "fl x + 1 / 2 = of_int q + (of_int r / (2 * of_int n) + \<delta>)"
      using y by (simp add: \<delta>_def)
    moreover have "0 \<le> of_int r / (2 * rat_of_int n) + \<delta>"
      "of_int r / (2 * rat_of_int n) + \<delta> < 1"
      using d lo hi by (simp_all add: abs_less_iff)
    ultimately have "\<lfloor>fl x + 1 / 2\<rfloor> = q"
      by (simp add: floor_unique)
    then show ?thesis
      by (simp add: Math_round_def x_def [symmetric] q_def [symmetric])
  qed
qed

lemma floor_between:
  fixes q r n :: int and d :: rat
  assumes n: "0 < n" and r: "1 \<le> r" "r + 1 \<le> 2 * n"
    and d: "\<bar>d\<bar> < 1 / (2 * of_int n)"
  shows "\<lfloor>of_int q + of_int r / (2 * of_int n) + d\<rfloor> = q"
proof -
  have N: "(0::rat) < of_int n"
    using n by simp
  have lo: "1 / (2 * of_int n) \<le> of_int r / (2 * rat_of_int n)"
    using r(1) N by (simp add: divide_le_cancel)
  have hi: "of_int r / (2 * rat_of_int n) + 1 / (2 * of_int n) \<le> 1"
  proof -
    have "of_int (r + 1) \<le> (of_int (2 * n) :: rat)"
      using r(2) by (simp only: of_int_le_iff)
    then show ?thesis
      using N by (simp add: field_simps)
  qed
  have "0 \<le> of_int r / (2 * rat_of_int n) + d" "of_int r / (2 * rat_of_int n) + d < 1"
    using d lo hi by (simp_all add: abs_less_iff)
  then show ?thesis
    by (simp add: floor_unique add.assoc)
qed

lemma percent_off_ties:
  fixes c t :: nat
  assumes t: "0 < t" and c: "c < 2 ^ 43"
    and tie: "(200 * int c + int t) mod (2 * int t) \<noteq> 0"
  shows "Math_round (fl (fl (of_nat c / of_nat t) * 100))
           = (200 * int c + int t) div (2 * int t)"
proof -
  define x :: rat where "x = of_nat c / of_nat t"
  define z :: rat where "z = fl x * 100"
  define p :: rat where "p = 100 * x"
  define Q where "Q = (200 * int c + int t) div (2 * int t)"
  define r where "r = (200 * int c + int t) mod (2 * int t)"
  have T: "(0::rat) < of_nat t"
    using t by simp
  have x0: "0 \<le> x"
    by (simp add: x_def)
  have r0: "0 \<le> r" "r < 2 * int t"
    using t by (simp_all add: r_def)
  from tie have "r \<noteq> 0"
    by (simp only: r_def not_False_eq_True)
  with r0 have r: "1 \<le> r" "r + 1 \<le> 2 * int t"
    by linarith+
  have qr: "200 * int c + int t = Q * (2 * int t) + r"
    by (simp only: Q_def r_def div_mult_mod_eq)
  have "of_int (200 * int c + int t) = (of_int (Q * (2 * int t) + r) :: rat)"
    by (simp only: qr)
  then have y: "p + 1 / 2 = of_int Q + of_int r / (2 * of_int (int t))"
    using T by (simp add: p_def x_def field_simps)
  have e1: "\<bar>fl x - x\<bar> \<le> x / 2 ^ 53"
    using fl_error [of x] x0 by simp
  have "z - p = 100 * (fl x - x)"
    by (simp add: z_def p_def algebra_simps)
  then have "\<bar>z - p\<bar> = 100 * \<bar>fl x - x\<bar>"
    by (simp only: abs_mult abs_numeral)
  also have "\<dots> \<le> 100 * (x / 2 ^ 53)"
    using e1 by (intro mult_left_mono) simp_all
  finally have z1: "\<bar>z - p\<bar> \<le> p / 2 ^ 53"
    by (simp add: p_def)
  have p0: "0 \<le> p"
    using x0 by (simp add: p_def)
  then have "p / 2 ^ 53 \<le> p"
    by (simp add: divide_le_eq_numeral1 mult_left_le)
  with z1 have "\<bar>z - p\<bar> \<le> p"
    by linarith
  then have z2: "\<bar>z\<bar> \<le> 2 * p"
    by linarith
  define u where "u = p / 2 ^ 53"
  have "\<bar>fl z - z\<bar> \<le> \<bar>z\<bar> / 2 ^ 53"
    by (rule fl_error)
  also have "\<dots> \<le> 2 * p / 2 ^ 53"
    using z2 by (simp add: divide_right_mono)
  also have "\<dots> = 2 * u"
    by (simp add: u_def)
  finally have "\<bar>fl z - z\<bar> \<le> 2 * u" .
  moreover from z1 have "\<bar>z - p\<bar> \<le> u"
    by (simp only: u_def)
  ultimately have "\<bar>fl z - p\<bar> \<le> 3 * u"
    by linarith
  then have "\<bar>fl z - p\<bar> \<le> 3 * p / 2 ^ 53"
    by (simp add: u_def)
  moreover have "3 * p / 2 ^ 53 < 1 / (2 * of_int (int t))"
  proof -
    have "600 * int c < 2 ^ 53"
      using c by simp
    then have "(of_int (600 * int c) :: rat) < of_int (2 ^ 53)"
      by (simp only: of_int_less_iff)
    then show ?thesis
      using T by (simp add: p_def x_def field_simps)
  qed
  ultimately have d: "\<bar>fl z - p\<bar> < 1 / (2 * of_int (int t))"
    by simp
  have eq: "fl z + 1 / 2 = of_int Q + of_int r / (2 * of_int (int t)) + (fl z - p)"
    using y by simp
  have "\<lfloor>of_int Q + of_int r / (2 * of_int (int t)) + (fl z - p)\<rfloor> = Q"
    using _ r d by (rule floor_between) (use t in simp)
  then have "\<lfloor>fl z + 1 / 2\<rfloor> = Q"
    by (simp only: eq)
  then show ?thesis
    by (simp only: Math_round_def z_def x_def Q_def)
qed

section \<open>Properties of the calendar\<close>

lemma div_bounds:
  fixes x k :: int
  assumes "0 < k"
  shows "k * (x div k) \<le> x" and "x < k * (x div k) + k"
proof -
  have "k * (x div k) = x - x mod k"
    by (simp add: minus_mod_eq_mult_div)
  moreover have "0 \<le> x mod k" "x mod k < k"
    using assms by simp_all
  ultimately show "k * (x div k) \<le> x" and "x < k * (x div k) + k"
    by linarith+
qed

lemma leap_days_lin:
  fixes a b c n :: int
  assumes "4 * a \<le> n + 1" and "n + 69 < 100 * b + 100" and "400 * c \<le> n + 369"
  shows "400 * a - 400 * b + 400 * c \<le> 97 * n + 589"
  using assms by linarith

lemma leap_days_bound:
  fixes n :: int
  shows "400 * ((n + 1) div 4) - 400 * ((n + 69) div 100) + 400 * ((n + 369) div 400)
           \<le> 97 * n + 589"
  by (rule leap_days_lin) (simp_all add: div_bounds)

lemma estimate_lin_pos:
  fixes a b c n d :: int
  assumes "400 * a - 400 * b + 400 * c \<le> 97 * n + 589" and "- 1 \<le> n"
    and "366 * n + 366 \<le> d"
  shows "365 * n + (a - b + c) \<le> d"
  using assms by linarith

lemma estimate_lin_neg:
  fixes a b c n d :: int
  assumes "400 * a - 400 * b + 400 * c \<le> 97 * n + 589" and "n \<le> - 2"
    and "365 * n + 365 \<le> d"
  shows "365 * n + (a - b + c) \<le> d"
  using assms by linarith

lemma DayFromYear_shift:
  "DayFromYear (1970 + n) = 365 * n + ((n + 1) div 4 - (n + 69) div 100 + (n + 369) div 400)"
  by (simp add: DayFromYear_def algebra_simps)

lemma year_estimate_le: "DayFromYear (year_estimate d) \<le> d"
proof (cases "0 \<le> d")
  case True
  define n where "n = d div 366 - 1"
  have "0 \<le> d div 366"
    using True by (simp add: pos_imp_zdiv_nonneg_iff)
  moreover have "366 * (d div 366) \<le> d"
    by (rule div_bounds) simp
  ultimately have n: "- 1 \<le> n" "366 * n + 366 \<le> d"
    by (simp_all add: n_def)
  have "year_estimate d = 1970 + n"
    using True by (simp add: year_estimate_def n_def)
  moreover have "DayFromYear (1970 + n) \<le> d"
    unfolding DayFromYear_shift using leap_days_bound [of n] n by (rule estimate_lin_pos)
  ultimately show ?thesis by simp
next
  case False
  define n where "n = d div 365 - 1"
  have "d div 365 < 0"
    using False by (simp add: div_neg_pos_less0)
  moreover have "365 * (d div 365) \<le> d"
    by (rule div_bounds) simp
  ultimately have n: "n \<le> - 2" "365 * n + 365 \<le> d"
    by (simp_all add: n_def)
  have "year_estimate d = 1970 + n"
    using False by (simp add: year_estimate_def n_def)
  moreover have "DayFromYear (1970 + n) \<le> d"
    unfolding DayFromYear_shift using leap_days_bound [of n] n by (rule estimate_lin_neg)
  ultimately show ?thesis by simp
qed

lemma year_up_spec:
  "DayFromYear y \<le> d \<Longrightarrow>
     DayFromYear (year_up d y) \<le> d \<and> d < DayFromYear (year_up d y + 1)"
proof (induction d y rule: year_up.induct)
  case (1 d y)
  show ?case
  proof (cases "DayFromYear (y + 1) \<le> d")
    case True
    then have "year_up d y = year_up d (y + 1)"
      by (subst year_up.simps) simp
    with True "1.IH" show ?thesis by simp
  next
    case False
    then have "year_up d y = y"
      by (subst year_up.simps) simp
    with False "1.prems" show ?thesis by simp
  qed
qed

lemma YearFromDay_spec:
  "DayFromYear (YearFromDay d) \<le> d" "d < DayFromYear (YearFromDay d + 1)"
  unfolding YearFromDay_def using year_up_spec [OF year_estimate_le] by blast+

lemma InLeapYear_DaysInYear: "DaysInYear y = 365 + InLeapYear y"
  by (simp add: InLeapYear_def DaysInYear_def)

lemma InLeapYear_range: "InLeapYear y = 0 \<or> InLeapYear y = 1"
  by (simp add: InLeapYear_def)

lemma MakeDay_month_first: "MakeDay y m dt = month_first (12 * y + m) + dt - 1"
proof -
  have "(12 * y + m) div 12 = y + m div 12" "(12 * y + m) mod 12 = m mod 12"
    by simp_all
  then show ?thesis
    by (simp add: MakeDay_def month_first_def)
qed

lemma MonthFromDayInYear_range: "0 \<le> MonthFromDayInYear dw l \<and> MonthFromDayInYear dw l \<le> 11"
  by (simp add: MonthFromDayInYear_def)

lemma month_table:
  assumes "0 \<le> dw" and "dw < 365 + l" and "l = 0 \<or> l = 1"
  shows "DayFromMonth (MonthFromDayInYear dw l) l \<le> dw
       \<and> (MonthFromDayInYear dw l < 11 \<longrightarrow> dw < DayFromMonth (MonthFromDayInYear dw l + 1) l)"
proof -
  consider (m0) "dw < 31"
    | (m1) "31 \<le> dw \<and> dw < 59 + l"
    | (m2) "59 + l \<le> dw \<and> dw < 90 + l"
    | (m3) "90 + l \<le> dw \<and> dw < 120 + l"
    | (m4) "120 + l \<le> dw \<and> dw < 151 + l"
    | (m5) "151 + l \<le> dw \<and> dw < 181 + l"
    | (m6) "181 + l \<le> dw \<and> dw < 212 + l"
    | (m7) "212 + l \<le> dw \<and> dw < 243 + l"
    | (m8) "243 + l \<le> dw \<and> dw < 273 + l"
    | (m9) "273 + l \<le> dw \<and> dw < 304 + l"
    | (m10) "304 + l \<le> dw \<and> dw < 334 + l"
    | (m11) "334 + l \<le> dw \<and> dw < 365 + l"
    using assms(2) by linarith
  then show ?thesis
  proof cases
    case m0
    with assms(1,3) have "MonthFromDayInYear dw l = 0"
      unfolding MonthFromDayInYear_def by auto
    with m0 assms(1,3) show ?thesis
      by (auto simp: DayFromMonth_def)
  next
    case m1
    with assms(1,3) have "MonthFromDayInYear dw l = 1"
      unfolding MonthFromDayInYear_def by auto
    with m1 assms(1,3) show ?thesis
      by (auto simp: DayFromMonth_def)
  next
    case m2
    with assms(1,3) have "MonthFromDayInYear dw l = 2"
      unfolding MonthFromDayInYear_def by auto
    with m2 assms(1,3) show ?thesis
      by (auto simp: DayFromMonth_def)
  next
    case m3
    with assms(1,3) have "MonthFromDayInYear dw l = 3"
      unfolding MonthFromDayInYear_def by auto
    with m3 assms(1,3) show ?thesis
      by (auto simp: DayFromMonth_def)
  next
    case m4
    with assms(1,3) have "MonthFromDayInYear dw l = 4"
      unfolding MonthFromDayInYear_def by auto
    with m4 assms(1,3) show ?thesis
      by (auto simp: DayFromMonth_def)
  next
    case m5
    with assms(1,3) have "MonthFromDayInYear dw l = 5"
      unfolding MonthFromDayInYear_def by auto
    with m5 assms(1,3) show ?thesis
      by (auto simp: DayFromMonth_def)
  next
    case m6
    with assms(1,3) have "MonthFromDayInYear dw l = 6"
      unfolding MonthFromDayInYear_def by auto
    with m6 assms(1,3) show ?thesis
      by (auto simp: DayFromMonth_def)
  next
    case m7
    with assms(1,3) have "MonthFromDayInYear dw l = 7"
      unfolding MonthFromDayInYear_def by auto
    with m7 assms(1,3) show ?thesis
      by (auto simp: DayFromMonth_def)
  next
    case m8
    with assms(1,3) have "MonthFromDayInYear dw l = 8"
      unfolding MonthFromDayInYear_def by auto
    with m8 assms(1,3) show ?thesis
      by (auto simp: DayFromMonth_def)
  next
    case m9
    with assms(1,3) have "MonthFromDayInYear dw l = 9"
      unfolding MonthFromDayInYear_def by auto
    with m9 assms(1,3) show ?thesis
      by (auto simp: DayFromMonth_def)
  next
    case m10
    with assms(1,3) have "MonthFromDayInYear dw l = 10"
      unfolding MonthFromDayInYear_def by auto
    with m10 assms(1,3) show ?thesis
      by (auto simp: DayFromMonth_def)
  next
    case m11
    with assms(1,3) have "MonthFromDayInYear dw l = 11"
      unfolding MonthFromDayInYear_def by auto
    with m11 assms(1,3) show ?thesis
      by (auto simp: DayFromMonth_def)
  qed
qed

lemma day_in_year:
  "0 \<le> d - DayFromYear (YearFromDay d)"
  "d - DayFromYear (YearFromDay d) < 365 + InLeapYear (YearFromDay d)"
  using YearFromDay_spec [of d] DayFromYear_Suc [of "YearFromDay d"]
  by (simp_all add: InLeapYear_DaysInYear)

lemma abs_month_decompose:
  "abs_month d div 12 = YearFromDay d" "abs_month d mod 12 = MonthFromDay d"
proof -
  have r: "0 \<le> MonthFromDay d" "MonthFromDay d < 12"
    using MonthFromDayInYear_range
      [of "d - DayFromYear (YearFromDay d)" "InLeapYear (YearFromDay d)"]
    by (simp_all add: MonthFromDay_def)
  then show "abs_month d div 12 = YearFromDay d" "abs_month d mod 12 = MonthFromDay d"
    by (simp_all add: abs_month_def div_pos_pos_trivial mod_pos_pos_trivial)
qed

lemma month_first_le: "month_first (abs_month d) \<le> d"
  using month_table [OF day_in_year InLeapYear_range, of d]
  by (simp add: month_first_def abs_month_decompose MonthFromDay_def)

lemma DateFromDay_eq: "DateFromDay d = d - month_first (abs_month d) + 1"
  by (simp add: DateFromDay_def month_first_def abs_month_decompose)

lemma DateFromDay_pos: "1 \<le> DateFromDay d"
  using month_first_le [of d] by (simp add: DateFromDay_eq)

lemma mod12_step:
  fixes M :: int
  shows "(M + 1) mod 12 = (if M mod 12 = 11 then 0 else M mod 12 + 1)"
proof -
  have r: "0 \<le> M mod 12" "M mod 12 < 12"
    by simp_all
  have "(M + 1) mod 12 = (M mod 12 + 1) mod 12"
    by (simp add: mod_add_left_eq)
  also have "\<dots> = (if M mod 12 = 11 then 0 else M mod 12 + 1)"
    using r by (simp add: mod_pos_pos_trivial)
  finally show ?thesis .
qed

lemma div12_step:
  fixes M :: int
  shows "(M + 1) div 12 = (if M mod 12 = 11 then M div 12 + 1 else M div 12)"
  using div_step [of 12 M] by (simp add: mod12_step)

lemma DayFromMonth_step:
  assumes "0 \<le> m" and "m < 11" and "l = 0 \<or> l = 1"
  shows "DayFromMonth m l < DayFromMonth (m + 1) l"
proof -
  from assms(1,2) have "m = 0 \<or> m = 1 \<or> m = 2 \<or> m = 3 \<or> m = 4 \<or> m = 5
    \<or> m = 6 \<or> m = 7 \<or> m = 8 \<or> m = 9 \<or> m = 10"
    by presburger
  then show ?thesis
    using assms(3) by (elim disjE) (auto simp: DayFromMonth_def)
qed

lemma month_first_step: "month_first M < month_first (M + 1)"
proof (cases "M mod 12 = 11")
  case True
  then show ?thesis
    using InLeapYear_range [of "M div 12"]
    by (simp add: month_first_def div12_step mod12_step DayFromYear_Suc InLeapYear_DaysInYear
        DayFromMonth_def)
next
  case False
  moreover have "0 \<le> M mod 12" "M mod 12 < 12"
    by simp_all
  ultimately have "DayFromMonth (M mod 12) (InLeapYear (M div 12))
      < DayFromMonth (M mod 12 + 1) (InLeapYear (M div 12))"
    by (intro DayFromMonth_step InLeapYear_range) simp_all
  with False show ?thesis
    by (simp add: month_first_def div12_step mod12_step)
qed

lemma month_first_mono: "M < N \<Longrightarrow> month_first M < month_first N"
proof (induction N rule: int_gr_induct)
  case base
  show ?case by (rule month_first_step)
next
  case (step i)
  then show ?case
    using month_first_step [of i] by simp
qed

lemma month_first_mono_le: "M \<le> N \<Longrightarrow> month_first M \<le> month_first N"
  using month_first_mono [of M N] by (cases "M = N") simp_all

lemma month_first_gt: "d < month_first (abs_month d + 1)"
proof (cases "MonthFromDay d = 11")
  case True
  then have "(abs_month d + 1) div 12 = YearFromDay d + 1" "(abs_month d + 1) mod 12 = 0"
    by (simp_all add: div12_step mod12_step abs_month_decompose)
  then show ?thesis
    using YearFromDay_spec(2) [of d] by (simp add: month_first_def DayFromMonth_def)
next
  case False
  moreover have "MonthFromDay d \<le> 11"
    using MonthFromDayInYear_range by (simp add: MonthFromDay_def)
  ultimately have lt: "MonthFromDay d < 11" by simp
  have "(abs_month d + 1) div 12 = YearFromDay d"
    "(abs_month d + 1) mod 12 = MonthFromDay d + 1"
    using False by (simp_all add: div12_step mod12_step abs_month_decompose)
  then show ?thesis
    using month_table [OF day_in_year InLeapYear_range, of d] lt
    by (simp add: month_first_def MonthFromDay_def)
qed

lemma abs_month_ge:
  assumes "month_first M \<le> d"
  shows "M \<le> abs_month d"
proof (rule ccontr)
  assume "\<not> M \<le> abs_month d"
  then have "abs_month d + 1 \<le> M" by simp
  then have "month_first (abs_month d + 1) \<le> month_first M"
    by (rule month_first_mono_le)
  with month_first_gt [of d] assms show False by simp
qed

section \<open>Toggling a day\<close>

lemma find_None_sort_key:
  "find P (sort_key f xs) = None \<longleftrightarrow> (\<forall>x\<in>set xs. \<not> P x)"
  by (auto simp: find_None_iff)

lemma find_unique:
  assumes "x \<in> set xs" and "P x" and "\<forall>y\<in>set xs. P y \<longrightarrow> y = x"
  shows "find P xs = Some x"
proof (cases "find P xs")
  case None
  then have "\<not> P x"
    using assms(1) by (auto simp: find_None_iff)
  with assms(2) show ?thesis by blast
next
  case (Some y)
  then have "P y" and "y \<in> set xs"
    by (auto simp: find_Some_iff)
  with assms(3) have "y = x" by blast
  with Some show ?thesis by blast
qed

lemma normalizeDate_idem: "normalizeDate (normalizeDate d) = normalizeDate d"
  by (simp add: normalizeDate_def msPerDay_def)

lemma toggle_creates:
  assumes user: "currentUserId tr = Some uid"
    and sync: "synced tr"
    and none: "\<forall>c\<in>set (fs_checkIns tr).
                 \<not> (ci_goalId c = g \<and> normalizeDate (ci_date c) = normalizeDate D)"
  shows "toggleCheckIn newId now tr g D =
           Inr (tr\<lparr>fs_checkIns := fs_checkIns tr @ [completed_checkIn newId uid g D now]\<rparr>)"
proof -
  have "getCheckInForDate tr g D = None"
    using sync none
    by (simp add: getCheckInForDate_def synced_def query_checkIns_def find_None_sort_key)
  then show ?thesis
    using user
    by (simp add: toggleCheckIn_def addCheckIn_def completed_checkIn_def notes_or_null_def)
qed

lemma toggle_removes:
  assumes user: "currentUserId tr = Some uid"
    and none: "\<forall>c\<in>set docs.
                 \<not> (ci_goalId c = g \<and> normalizeDate (ci_date c) = normalizeDate D)"
    and fresh: "newId \<notin> ci_id ` set docs"
    and docs: "fs_checkIns tr = docs @ [completed_checkIn newId uid g D now]"
    and sync: "synced tr"
  shows "toggleCheckIn newId' now' tr g D = Inr (tr\<lparr>fs_checkIns := docs\<rparr>)"
proof -
  let ?c = "completed_checkIn newId uid g D now"
  let ?P = "\<lambda>c. ci_goalId c = g \<and> normalizeDate (ci_date c) = normalizeDate D"
  have "?c \<in> set (checkIns tr)"
    using sync docs by (simp add: synced_def query_checkIns_def)
  moreover have "?P ?c"
    by (simp add: completed_checkIn_def normalizeDate_idem)
  moreover have "\<forall>y\<in>set (checkIns tr). ?P y \<longrightarrow> y = ?c"
    using sync docs none by (auto simp: synced_def query_checkIns_def)
  ultimately have "find ?P (checkIns tr) = Some ?c"
    by (rule find_unique)
  then have get: "getCheckInForDate tr g D = Some ?c"
    by (simp add: getCheckInForDate_def)
  have "filter (\<lambda>c. ci_id c \<noteq> newId) docs = docs"
    using fresh by (auto simp: filter_id_conv)
  then have "filter (\<lambda>c. ci_id c \<noteq> ci_id ?c) (fs_checkIns tr) = docs"
    using docs by (simp add: completed_checkIn_def)
  then show ?thesis
    using user get
    by (simp add: toggleCheckIn_def removeCheckIn_def completed_checkIn_def)
qed

text \<open>
  Claim C5. Starting from an up-to-date ledger of a logged-in user with no record for
  (goal, day D), \<open>toggleCheckIn(goal, D)\<close> adds one record for the normalized day with
  \<open>completed = true\<close>; once the listener has delivered it, a second
  \<open>toggleCheckIn(goal, D)\<close> deletes that record, and collection and snapshot are
  again what they were before the first call.
\<close>

theorem toggle_twice_restores:
  assumes user: "currentUserId tr = Some uid"
    and sync: "synced tr"
    and none: "\<forall>c\<in>set (fs_checkIns tr).
                 \<not> (ci_goalId c = g \<and> normalizeDate (ci_date c) = normalizeDate D)"
    and fresh: "newId \<notin> ci_id ` set (fs_checkIns tr)"
  shows "\<exists>tr1 tr2.
           toggleCheckIn newId now tr g D = Inr tr1
         \<and> fs_checkIns tr1 = fs_checkIns tr @ [completed_checkIn newId uid g D now]
         \<and> toggleCheckIn newId' now' (onSnapshot tr1) g D = Inr tr2
         \<and> fs_checkIns tr2 = fs_checkIns tr
         \<and> onSnapshot tr2 = tr"
proof -
  let ?tr1 = "tr\<lparr>fs_checkIns := fs_checkIns tr @ [completed_checkIn newId uid g D now]\<rparr>"
  have one: "toggleCheckIn newId now tr g D = Inr ?tr1"
    using user sync none by (rule toggle_creates)
  have two: "toggleCheckIn newId' now' (onSnapshot ?tr1) g D
               = Inr ((onSnapshot ?tr1)\<lparr>fs_checkIns := fs_checkIns tr\<rparr>)"
    by (rule toggle_removes [where uid = uid and newId = newId and now = now])
       (use user none fresh in \<open>simp_all add: onSnapshot_def synced_def\<close>)
  have "onSnapshot ((onSnapshot ?tr1)\<lparr>fs_checkIns := fs_checkIns tr\<rparr>) = tr"
    using sync by (simp add: onSnapshot_def synced_def)
  with one two show ?thesis by simp
qed

theorem toggle_twice_restores_witness:
  "\<exists>tr1 tr2.
      toggleCheckIn ''c2'' 259200500 ledger_other ''g1'' 259200400 = Inr tr1
    \<and> fs_checkIns tr1 = fs_checkIns ledger_other
         @ [completed_checkIn ''c2'' ''u1'' ''g1'' 259200400 259200500]
    \<and> toggleCheckIn ''c3'' 259200900 (onSnapshot tr1) ''g1'' 259200400 = Inr tr2
    \<and> fs_checkIns tr2 = fs_checkIns ledger_other
    \<and> onSnapshot tr2 = ledger_other"
  using toggle_twice_restores [of ledger_other "''u1''" "''g1''" 259200400 "''c2''"
      259200500 "''c3''" 259200900]
  by (simp add: ledger_other_def doc_done_def synced_def query_checkIns_def normalizeDate_def
      msPerDay_def)

text \<open>
  Claim C6, as stated, fails: with a record for (goal, day) whose flag is false, the toggle
  returns normally and the ledger holds no completed record for that day afterwards.
\<close>

theorem toggle_incomplete_counterexample:
  "\<not> (\<exists>tr'. toggleCheckIn ''c2'' 172809000 ledger_incomplete ''g2'' 172800000 = Inr tr'
        \<and> (\<exists>c\<in>set (fs_checkIns tr'). ci_goalId c = ''g2''
               \<and> normalizeDate (ci_date c) = 172800000 \<and> ci_completed c))"
  by (simp add: toggleCheckIn_def getCheckInForDate_def ledger_incomplete_def doc_open_def
      normalizeDate_def msPerDay_def)

text \<open>
  Claim C6, amended. When the record that \<open>getCheckInForDate\<close> finds for (goal, day) has
  \<open>completed = false\<close>, \<open>toggleCheckIn\<close> of a logged-in user returns normally and
  changes nothing: no record is created and none is removed.
\<close>

theorem toggle_incomplete_unchanged:
  assumes "currentUserId tr = Some uid"
    and "getCheckInForDate tr g D = Some c"
    and "\<not> ci_completed c"
  shows "toggleCheckIn newId now tr g D = Inr tr"
  using assms by (simp add: toggleCheckIn_def)

theorem toggle_incomplete_unchanged_witness:
  "currentUserId ledger_incomplete = Some ''u1''
   \<and> (\<exists>c. getCheckInForDate ledger_incomplete ''g2'' 172800000 = Some c \<and> \<not> ci_completed c)
   \<and> toggleCheckIn ''c2'' 172809000 ledger_incomplete ''g2'' 172800000 = Inr ledger_incomplete"
proof -
  have u: "currentUserId ledger_incomplete = Some ''u1''"
    by (simp add: ledger_incomplete_def)
  have g: "getCheckInForDate ledger_incomplete ''g2'' 172800000 = Some doc_open"
    by (simp add: getCheckInForDate_def ledger_incomplete_def doc_open_def normalizeDate_def
        msPerDay_def)
  have n: "\<not> ci_completed doc_open"
    by (simp add: doc_open_def)
  from toggle_incomplete_unchanged [OF u g n] u g n show ?thesis
    by simp
qed

section \<open>Stale webhook requests\<close>

lemma parseInt_Nil: "parseInt [] = None"
  by (simp add: parseInt_def strip_sign_def strip_prefix_def)

lemma parseInt_example: "parseInt ''1700000000'' = Some 1700000000"
  by (simp add: parseInt_def strip_sign_def strip_prefix_def is_white_space_def is_digit_def
      digit_value_def digits_value_def)

lemma parseInt_hex_example: "parseInt '' -0x1fz'' = Some (- 31)"
  by (simp add: parseInt_def strip_sign_def strip_prefix_def is_white_space_def is_digit_def
      digit_value_def digits_value_def)

text \<open>
  Claim C9, as stated, fails: without a configured signing secret the handler of
  \<open>api/slack/webhook.ts\<close> accepts a \<open>POST\<close> whose timestamp is 900 seconds old.
\<close>

theorem unconfigured_secret_counterexample:
  "timestamp_too_old (1700000900000 div 1000) ''1700000000''
   \<and> handler_api (\<lambda>key msg. ''ab'') [] 1700000900000 ''POST'' (Some ''1700000000'')
        (Some ''v0=ab'') ''{}'' = Proceeds"
  by (simp add: handler_api_def verifySlackSignature_api_def timestamp_too_old_def
      parseInt_example)

text \<open>
  Claim C9, amended. When a signing secret is configured and the timestamp header parses to a
  number more than 300 seconds from the current time, \<open>verifySlackSignature\<close> returns
  \<open>false\<close> in both webhooks, whatever the signature header and the HMAC are (so also for a
  valid signature). The handler of \<open>api/slack/webhook.ts\<close> then answers a \<open>POST\<close> with
  401; the handler of \<open>functions/src/slack/webhook.ts\<close> answers 401 when the signature
  header is present and the body is not a \<open>url_verification\<close>.
\<close>

theorem stale_timestamp_rejected:
  assumes ts: "parseInt timestamp = Some t"
    and old: "\<bar>now_ms div 1000 - t\<bar> > 300"
    and secret: "signingSecret \<noteq> []"
  shows "verifySlackSignature_api hmac signingSecret now_ms (Some timestamp) sig_hdr body
           = Inr False
       \<and> verifySlackSignature_fn hmac now_ms signingSecret signature timestamp body = Inr False
       \<and> handler_api hmac signingSecret now_ms ''POST'' (Some timestamp) sig_hdr body
           = Invalid401
       \<and> (body_type \<noteq> Some ''url_verification'' \<and> signature \<noteq> [] \<longrightarrow>
           slackWebhook hmac signingSecret now_ms body_type (Some signature) (Some timestamp)
             body = Invalid401)"
proof -
  from ts have ne: "timestamp \<noteq> []"
    using parseInt_Nil by auto
  from ts old have stale: "timestamp_too_old (now_ms div 1000) timestamp"
    by (simp add: timestamp_too_old_def)
  have api: "verifySlackSignature_api hmac signingSecret now_ms (Some timestamp) sig_hdr body
           = Inr False"
    using secret ne stale by (cases sig_hdr) (simp_all add: verifySlackSignature_api_def)
  have fn: "verifySlackSignature_fn hmac now_ms signingSecret signature timestamp body
           = Inr False"
    using stale by (simp add: verifySlackSignature_fn_def)
  have "handler_api hmac signingSecret now_ms ''POST'' (Some timestamp) sig_hdr body
           = Invalid401"
    using api by (simp add: handler_api_def)
  moreover have "slackWebhook hmac signingSecret now_ms body_type (Some signature)
      (Some timestamp) body = Invalid401"
    if "body_type \<noteq> Some ''url_verification''" and "signature \<noteq> []"
    using that fn secret ne by (simp add: slackWebhook_def)
  ultimately show ?thesis
    using api fn by blast
qed

text \<open>
  The witness: a signature that matches the HMAC is refused at 900 seconds and accepted at
  200 seconds.
\<close>

theorem stale_timestamp_rejected_witness:
  "verifySlackSignature_api (\<lambda>key msg. ''ab'') ''secret'' 1700000900000 (Some ''1700000000'')
       (Some ''v0=ab'') ''{}'' = Inr False
   \<and> slackWebhook (\<lambda>key msg. ''ab'') ''secret'' 1700000900000 (Some ''event_callback'')
       (Some ''v0=ab'') (Some ''1700000000'') ''{}'' = Invalid401
   \<and> verifySlackSignature_api (\<lambda>key msg. ''ab'') ''secret'' 1700000200000 (Some ''1700000000'')
       (Some ''v0=ab'') ''{}'' = Inr True"
proof -
  have "\<bar>1700000900000 div 1000 - 1700000000\<bar> > (300::int)" by simp
  from stale_timestamp_rejected [OF parseInt_example this, of "''secret''" "\<lambda>key msg. ''ab''"
      "Some ''v0=ab''" "''{}''" "''v0=ab''" "Some ''event_callback''"]
  show ?thesis
    by (simp add: verifySlackSignature_api_def timestamp_too_old_def parseInt_example
        timingSafeEqual_def)
qed

section \<open>Inbox deduplication\<close>

lemma take1_filter_empty: "take 1 (filter P xs) \<noteq> [] \<longleftrightarrow> filter P xs \<noteq> []"
  by (cases "filter P xs") simp_all

lemma deliver_count:
  "items_with (deliver inbox a) u s =
     (if u = arrival_user a \<and> s = arrival_sourceId a \<and> items_with inbox u s = 0 then 1
      else items_with inbox u s)"
proof (cases a)
  case (Api_arrival newId now userId message)
  then show ?thesis
    by (auto simp: createInboxItem_api_def items_with_def Let_def take1_filter_empty
        filter_empty_conv)
next
  case (Fn_arrival newId now userId message)
  then show ?thesis
    by (auto simp: createInboxItem_fn_def items_with_def Let_def take1_filter_empty
        filter_empty_conv)
qed

lemma deliver_all_le:
  assumes "items_with inbox u s \<le> 1"
  shows "items_with (foldl deliver inbox as) u s \<le> 1"
  using assms
  by (induction as arbitrary: inbox) (simp_all add: deliver_count)

lemma deliver_all_keeps:
  assumes "items_with inbox u s = 1"
  shows "items_with (foldl deliver inbox as) u s = 1"
  using assms
  by (induction as arbitrary: inbox) (simp_all add: deliver_count)

lemma deliver_all_one:
  assumes "items_with inbox (arrival_user a) (arrival_sourceId a) \<le> 1" and "a \<in> set as"
  shows "items_with (foldl deliver inbox as) (arrival_user a) (arrival_sourceId a) = 1"
  using assms
proof (induction as arbitrary: inbox)
  case Nil
  then show ?case by simp
next
  case (Cons b as)
  show ?case
  proof (cases "b = a")
    case True
    have "items_with (deliver inbox a) (arrival_user a) (arrival_sourceId a) = 1"
      using Cons.prems(1) by (simp add: deliver_count)
    then show ?thesis
      using True by (simp add: deliver_all_keeps)
  next
    case False
    with Cons.prems have "a \<in> set as" by simp
    moreover have "items_with (deliver inbox b) (arrival_user a) (arrival_sourceId a) \<le> 1"
      using Cons.prems(1) by (simp add: deliver_count)
    ultimately show ?thesis
      using Cons.IH by simp
  qed
qed

text \<open>
  The two webhook handlers do deduplicate. Starting from inboxes that hold at most one item
  per (user, sourceId), after any sequence of arrivals delivered one after the other every
  inbox still holds at most one item per sourceId, and for every arrival of the sequence,
  however often it was delivered, the user's inbox holds exactly one item with its sourceId.
\<close>

lemma webhook_dedup:
  assumes "\<forall>u s. items_with inbox u s \<le> 1"
  shows "(\<forall>u s. items_with (foldl deliver inbox arrivals) u s \<le> 1)
       \<and> (\<forall>a\<in>set arrivals.
             items_with (foldl deliver inbox arrivals) (arrival_user a) (arrival_sourceId a) = 1)"
proof (intro conjI allI ballI)
  fix u s
  from assms have "items_with inbox u s \<le> 1" by blast
  then show "items_with (foldl deliver inbox arrivals) u s \<le> 1"
    by (rule deliver_all_le)
next
  fix a
  assume "a \<in> set arrivals"
  moreover from assms have "items_with inbox (arrival_user a) (arrival_sourceId a) \<le> 1"
    by blast
  ultimately show
    "items_with (foldl deliver inbox arrivals) (arrival_user a) (arrival_sourceId a) = 1"
    by (rule deliver_all_one [rotated])
qed

lemma no_firestore: "createInboxItem_api None newId now userId message = None"
  by (simp add: createInboxItem_api_def)

lemma webhook_redelivery:
  "items_with (foldl deliver (\<lambda>u. []) redelivery) ''u1'' ''1700000000.000100'' = 1
   \<and> items_with (foldl deliver (\<lambda>u. []) redelivery) ''u1'' ''C1-1700000000.000100'' = 1
   \<and> length (foldl deliver (\<lambda>u. []) redelivery ''u1'') = 2"
  by (simp add: redelivery_def createInboxItem_api_def createInboxItem_fn_def mention_def
      mention_fn_def items_with_def)

text \<open>
  The pull synchronisation does not: \<open>addItem\<close> never looks for an item with the same
  \<open>sourceId\<close>, so every email that is fetched is added.
\<close>

lemma sync_emails_adds_all:
  "fs_inbox (snd (sync_emails userId addItem emails app count errors)) userId
     = fs_inbox app userId
       @ map (\<lambda>(newId, now, email).
           \<lparr>ii_id = newId, ii_userId = userId, ii_source = Inbox_email,
             ii_status = Inbox_pending, ii_title = em_subject email,
             ii_description = em_snippet email, ii_sourceId = em_id email,
             ii_sourceUrl = Some (''https://mail.google.com/mail/u/0/#inbox/''
                                  @ em_threadId email),
             ii_sourceSender = Some (em_from email), ii_sourceChannel = None,
             ii_convertedToId = None, ii_convertedAt = None,
             ii_createdAt = now, ii_updatedAt = Some now\<rparr>) emails"
  by (induction emails arbitrary: app count) (auto simp add: addItem_def)

text \<open>
  Claim C7 fails on the pull path. The synchronisation of Gmail, run twice by the same user
  while the same email is unread, fetches that email twice and delivers it twice: after the
  first run the inbox holds one item with the email's id as \<open>sourceId\<close>, after the second
  run it holds two, where the claim says one.
\<close>

theorem pull_sync_duplicates:
  "sr_synced (fst synced_once) = 1 \<and> sr_synced (fst synced_twice) = 1
   \<and> items_with (fs_inbox (snd synced_once)) ''u1'' (em_id unread_email) = 1
   \<and> items_with (fs_inbox (snd synced_twice)) ''u1'' (em_id unread_email) = 2
   \<and> map ii_id (fs_inbox (snd synced_twice) ''u1'') = [''i1'', ''i2'']"
  by (simp add: synced_twice_def synced_once_def syncGmailToInbox_def addItem_def
      empty_app_def unread_email_def items_with_def)

section \<open>Operations on an id that the snapshot does not hold\<close>

lemma find_missing: "i \<notin> f ` set xs \<Longrightarrow> find (\<lambda>x. f x = i) xs = None"
  by (auto simp add: find_None_iff)

text \<open>
  Claim C8, as stated, fails in two ways. \<open>convertToTodo\<close> on an id that is not in the
  inbox snapshot throws \<open>Inbox item not found\<close> (and leaves the state as it was). And
  \<open>removeCheckIn\<close> does not look at the snapshot: on the id of a document that the
  collection holds and the snapshot has not yet received, it deletes the document.
\<close>

theorem missing_id_counterexample:
  "''i7'' \<notin> ii_id ` set (app_items sample_app)
   \<and> convertToTodo sample_app ''t1'' 1700000000000 ''i7'' todo_fields
       = (Inl InboxItemNotFound, sample_app)
   \<and> ''c1'' \<notin> ci_id ` set (checkIns ledger_lagging)
   \<and> fs_checkIns ledger_lagging = [doc_done]
   \<and> removeCheckIn ledger_lagging ''c1'' = Inr (ledger_lagging\<lparr>fs_checkIns := []\<rparr>)"
  by (simp add: convertToTodo_def sample_app_def inbox_item_def removeCheckIn_def
      ledger_lagging_def doc_done_def)

text \<open>
  Claim C8, amended. Invoked with an id that the in-memory snapshot does not hold,
  \<open>dismissItem\<close>, \<open>updateTodo\<close>, \<open>deleteTodo\<close>, \<open>toggleTodoStatus\<close>, \<open>updateGoal\<close> and
  \<open>deleteGoal\<close> return normally and leave the state as it was; \<open>convertToTodo\<close> throws
  \<open>Inbox item not found\<close> and leaves the state as it was. \<open>removeCheckIn\<close>, for a
  logged-in user and whatever the snapshot holds, returns normally and leaves in the
  collection exactly the documents with another id: the state as it was when the collection
  holds no document with that id.
\<close>

theorem missing_id_outcomes:
  "(i \<notin> ii_id ` set (app_items app) \<longrightarrow>
      dismissItem app now i = (Inr (), app)
      \<and> convertToTodo app newId now i todoData = (Inl InboxItemNotFound, app))
   \<and> (i \<notin> todo_id ` set (app_todos app) \<longrightarrow>
      updateTodo app now i updates = (Inr (), app)
      \<and> deleteTodo app i = (Inr (), app)
      \<and> toggleTodoStatus createNextRecurrence app now i = (Inr (), app))
   \<and> (i \<notin> goal_id ` set (app_goals app) \<longrightarrow>
      updateGoal app now i goalUpdates = (Inr (), app) \<and> deleteGoal app i = (Inr (), app))
   \<and> (currentUserId tr \<noteq> None \<longrightarrow>
      removeCheckIn tr i
        = Inr (tr\<lparr>fs_checkIns := filter (\<lambda>c. ci_id c \<noteq> i) (fs_checkIns tr)\<rparr>))
   \<and> (currentUserId tr \<noteq> None \<and> i \<notin> ci_id ` set (fs_checkIns tr) \<longrightarrow>
      removeCheckIn tr i = Inr tr)"
proof -
  have "filter (\<lambda>c. ci_id c \<noteq> i) (fs_checkIns tr) = fs_checkIns tr"
    if "i \<notin> ci_id ` set (fs_checkIns tr)"
    using that by (auto simp add: filter_id_conv)
  then show ?thesis
    by (auto simp add: find_missing dismissItem_def convertToTodo_def updateTodo_def
        deleteTodo_def toggleTodoStatus_def updateGoal_def deleteGoal_def removeCheckIn_def)
qed

theorem missing_id_outcomes_witness:
  "dismissItem sample_app 1700000000000 ''i7'' = (Inr (), sample_app)
   \<and> convertToTodo sample_app ''t1'' 1700000000000 ''i7'' todo_fields
       = (Inl InboxItemNotFound, sample_app)
   \<and> updateTodo sample_app 1700000000000 ''i7'' (\<lambda>t. t\<lparr>todo_status := Todo_completed\<rparr>)
       = (Inr (), sample_app)
   \<and> deleteTodo sample_app ''i7'' = (Inr (), sample_app)
   \<and> toggleTodoStatus no_recurrence sample_app 1700000000000 ''i7'' = (Inr (), sample_app)
   \<and> updateGoal sample_app 1700000000000 ''i7'' (\<lambda>g. g\<lparr>goal_progress := 50\<rparr>)
       = (Inr (), sample_app)
   \<and> deleteGoal sample_app ''i7'' = (Inr (), sample_app)
   \<and> removeCheckIn ledger_lagging ''i7'' = Inr ledger_lagging"
  using missing_id_outcomes [of "''i7''" sample_app 1700000000000 "''t1''" todo_fields
      "\<lambda>t. t\<lparr>todo_status := Todo_completed\<rparr>" no_recurrence
      "\<lambda>g. g\<lparr>goal_progress := 50\<rparr>" ledger_lagging]
  by (simp add: sample_app_def inbox_item_def todo_fields_def goal_fields_def
      ledger_lagging_def doc_done_def)

section \<open>Properties of the recurrence calculator\<close>

lemma TimeWithinDay_range: "0 \<le> TimeWithinDay t" "TimeWithinDay t < msPerDay"
  by (simp_all add: TimeWithinDay_def msPerDay_def)

lemma MakeDate_Day: "MakeDate (Day t) (TimeWithinDay t) = t"
  by (simp add: MakeDate_def Day_def TimeWithinDay_def)

lemma MakeDate_later:
  assumes "Day t < D"
  shows "t < MakeDate D (TimeWithinDay t)"
proof -
  from assms have "Day t + 1 \<le> D" by simp
  then have "(Day t + 1) * msPerDay \<le> D * msPerDay"
    by (simp add: msPerDay_def)
  then have "MakeDate (Day t) (TimeWithinDay t) + msPerDay \<le> MakeDate D (TimeWithinDay t)"
    by (simp add: MakeDate_def algebra_simps)
  then show ?thesis
    unfolding MakeDate_Day by (simp add: msPerDay_def)
qed

lemma Day_MakeDate: "Day (MakeDate D (TimeWithinDay t)) = D"
proof -
  have "(D * msPerDay + TimeWithinDay t) div msPerDay = D"
    using TimeWithinDay_range [of t] by (simp add: msPerDay_def div_pos_pos_trivial)
  then show ?thesis
    by (simp add: Day_def MakeDate_def)
qed

lemma MakeDay_own_month:
  "MakeDay (YearFromDay d) (MonthFromDay d + k) dt = month_first (abs_month d + k) + dt - 1"
  by (simp add: MakeDay_month_first abs_month_def add.assoc)

lemma TimeWithinDay_MakeDate: "TimeWithinDay (MakeDate D (TimeWithinDay t)) = TimeWithinDay t"
proof -
  have "(D * msPerDay + t mod msPerDay) mod msPerDay = t mod msPerDay"
    by (simp add: mod_add_eq)
  then show ?thesis
    by (simp add: TimeWithinDay_def MakeDate_def)
qed

lemma TimeClip_Some: "TimeClip x = Some y \<Longrightarrow> y = x"
  by (simp add: TimeClip_def split: if_splits)

lemma setDate_Day:
  assumes "setDate t dt = Some t'"
  shows "Day t' = month_first (abs_month (Day t)) + dt - 1"
    and "TimeWithinDay t' = TimeWithinDay t"
proof -
  from assms have "t' = MakeDate (MakeDay (getFullYear t) (getMonth t) dt) (TimeWithinDay t)"
    unfolding setDate_def by (rule TimeClip_Some)
  then show "Day t' = month_first (abs_month (Day t)) + dt - 1"
    and "TimeWithinDay t' = TimeWithinDay t"
    using MakeDay_own_month [of "Day t" 0 dt]
    by (simp_all add: Day_MakeDate TimeWithinDay_MakeDate getFullYear_def getMonth_def)
qed

lemma setDate_add: "setDate t (getDate t + k) = TimeClip (t + k * msPerDay)"
proof -
  have "MakeDay (getFullYear t) (getMonth t) (getDate t + k) = Day t + k"
    using MakeDay_own_month [of "Day t" 0 "DateFromDay (Day t) + k"]
    by (simp add: getFullYear_def getMonth_def getDate_def DateFromDay_eq)
  then have "MakeDate (MakeDay (getFullYear t) (getMonth t) (getDate t + k)) (TimeWithinDay t)
      = MakeDate (Day t) (TimeWithinDay t) + k * msPerDay"
    by (simp add: MakeDate_def algebra_simps)
  then show ?thesis
    by (simp add: setDate_def MakeDate_Day)
qed

lemma setMonth_Day:
  assumes "setMonth t (getMonth t + k) = Some t'"
  shows "Day t' = month_first (abs_month (Day t) + k) + (Day t - month_first (abs_month (Day t)))"
    and "TimeWithinDay t' = TimeWithinDay t"
proof -
  from assms
  have "t' = MakeDate (MakeDay (getFullYear t) (getMonth t + k) (getDate t)) (TimeWithinDay t)"
    unfolding setMonth_def by (rule TimeClip_Some)
  then show "Day t' = month_first (abs_month (Day t) + k) + (Day t - month_first (abs_month (Day t)))"
    and "TimeWithinDay t' = TimeWithinDay t"
    using MakeDay_own_month [of "Day t" k "DateFromDay (Day t)"]
    by (simp_all add: Day_MakeDate TimeWithinDay_MakeDate getFullYear_def getMonth_def
        getDate_def DateFromDay_eq)
qed

lemma setFullYear_Day:
  assumes "setFullYear t (getFullYear t + k) = Some t'"
  shows "Day t'
     = month_first (abs_month (Day t) + 12 * k) + (Day t - month_first (abs_month (Day t)))"
    and "TimeWithinDay t' = TimeWithinDay t"
proof -
  have m: "MakeDay (YearFromDay (Day t) + k) (MonthFromDay (Day t)) (DateFromDay (Day t))
          = month_first (abs_month (Day t) + 12 * k) + DateFromDay (Day t) - 1"
    by (simp add: MakeDay_month_first abs_month_def algebra_simps)
  from assms
  have "t' = MakeDate (MakeDay (getFullYear t + k) (getMonth t) (getDate t)) (TimeWithinDay t)"
    unfolding setFullYear_def by (rule TimeClip_Some)
  then show "Day t'
     = month_first (abs_month (Day t) + 12 * k) + (Day t - month_first (abs_month (Day t)))"
    and "TimeWithinDay t' = TimeWithinDay t"
    using m
    by (simp_all add: Day_MakeDate TimeWithinDay_MakeDate getFullYear_def getMonth_def
        getDate_def DateFromDay_eq)
qed

lemma later_month:
  assumes "1 \<le> k"
  shows "Day t < month_first (abs_month (Day t) + k)"
proof -
  have "month_first (abs_month (Day t) + 1) \<le> month_first (abs_month (Day t) + k)"
    using assms by (intro month_first_mono_le) simp
  with month_first_gt [of "Day t"] show ?thesis by simp
qed

lemma setMonth_later:
  assumes "1 \<le> k" and "setMonth t (getMonth t + k) = Some t'"
  shows "month_first (abs_month (Day t) + k) \<le> Day t'"
    and "Day t < Day t'"
  using later_month [OF assms(1), of t] month_first_le [of "Day t"]
  by (simp_all add: setMonth_Day(1) [OF assms(2)])

lemma setDate_after_setMonth:
  assumes "1 \<le> k" and "1 \<le> dm"
    and "setMonth t (getMonth t + k) = Some t1" and "setDate t1 dm = Some t2"
  shows "Day t < Day t2"
proof -
  have "abs_month (Day t) + k \<le> abs_month (Day t1)"
    using setMonth_later(1) [OF assms(1,3)] by (rule abs_month_ge)
  then have "month_first (abs_month (Day t) + k) \<le> month_first (abs_month (Day t1))"
    by (rule month_first_mono_le)
  with later_month [OF assms(1), of t] have "Day t < month_first (abs_month (Day t1))"
    by simp
  with assms(2) show ?thesis
    by (simp add: setDate_Day(1) [OF assms(4)])
qed

lemma setFullYear_later:
  assumes "1 \<le> k" and "setFullYear t (getFullYear t + k) = Some t'"
  shows "Day t < Day t'"
proof -
  from assms(1) have "1 \<le> 12 * k" by simp
  from later_month [OF this, of t] month_first_le [of "Day t"] show ?thesis
    by (simp add: setFullYear_Day(1) [OF assms(2)])
qed

lemma same_time_later:
  assumes "Day t < Day t'" and "TimeWithinDay t' = TimeWithinDay t"
  shows "t < t'"
proof -
  from assms(1) have "t < MakeDate (Day t') (TimeWithinDay t)"
    by (rule MakeDate_later)
  also have "\<dots> = t'"
    using MakeDate_Day [of t'] assms(2) by simp
  finally show ?thesis .
qed

text \<open>
  With \<open>interval \<ge> 1\<close> and a day of month that is 0 or at least 1, a valid date after
  the \<open>switch\<close> is strictly later than the date before it. In the monthly case the date
  after \<open>setMonth\<close> lies in a later month than the given date or beyond, and \<open>setDate\<close>
  with a day of month of at least 1 cannot leave that month backwards.
\<close>

lemma step_later:
  assumes int: "1 \<le> interval pattern"
    and dom: "\<forall>dm. dayOfMonth pattern = Some dm \<longrightarrow> dm = 0 \<or> 1 \<le> dm"
    and step: "step t pattern = Some t'"
  shows "t < t'"
proof (cases "frequency pattern")
  case Freq_daily
  have "0 < interval pattern * msPerDay"
    using int by (simp add: msPerDay_def)
  moreover from Freq_daily step have "t' = t + interval pattern * msPerDay"
    by (simp add: step_def setDate_add TimeClip_Some)
  ultimately show ?thesis by simp
next
  case Freq_weekly
  have "0 < 7 * interval pattern * msPerDay"
    using int by (simp add: msPerDay_def)
  moreover from Freq_weekly step have "t' = t + 7 * interval pattern * msPerDay"
    by (simp add: step_def setDate_add TimeClip_Some)
  ultimately show ?thesis by simp
next
  case Freq_monthly
  with step obtain t1 where t1: "setMonth t (getMonth t + interval pattern) = Some t1"
    by (auto simp add: step_def split: option.splits)
  have less1: "t < t1"
    using setMonth_later(2) [OF int t1] setMonth_Day(2) [OF t1] by (rule same_time_later)
  show ?thesis
  proof (cases "dayOfMonth pattern")
    case None
    with Freq_monthly t1 step less1 show ?thesis
      by (simp add: step_def)
  next
    case (Some dm)
    show ?thesis
    proof (cases "dm = 0")
      case True
      with Some Freq_monthly t1 step less1 show ?thesis
        by (simp add: step_def)
    next
      case False
      with Some Freq_monthly t1 step have t2: "setDate t1 (ToIntegerOrInfinity dm) = Some t'"
        by (simp add: step_def)
      from False dom Some have "1 \<le> dm" by force
      then have "1 \<le> ToIntegerOrInfinity dm"
        by (simp add: ToIntegerOrInfinity_def le_floor_iff)
      with int have "Day t < Day t'"
        using t1 t2 by (rule setDate_after_setMonth)
      moreover have "TimeWithinDay t' = TimeWithinDay t"
        using setDate_Day(2) [OF t2] setMonth_Day(2) [OF t1] by simp
      ultimately show ?thesis
        by (rule same_time_later)
    qed
  qed
next
  case Freq_yearly
  with step have y: "setFullYear t (getFullYear t + interval pattern) = Some t'"
    by (simp add: step_def)
  from setFullYear_later [OF int y] setFullYear_Day(2) [OF y] show ?thesis
    by (rule same_time_later)
qed

lemma Day_eval: "Day 1706659200000 = 19753" "TimeWithinDay 1706659200000 = 0"
  by (simp_all add: Day_def TimeWithinDay_def msPerDay_def)

lemma jan31: "YearFromDay 19753 = 2024" "MonthFromDay 19753 = 0" "DateFromDay 19753 = 31"
  by (simp_all add: YearFromDay_def year_estimate_def year_up.simps DayFromYear_def
      MonthFromDay_def MonthFromDayInYear_def DateFromDay_def DayFromMonth_def InLeapYear_def
      DaysInYear_def)

lemma feb31: "setMonth 1706659200000 (getMonth 1706659200000 + 1) = Some 1709337600000"
  by (simp add: setMonth_def getMonth_def getFullYear_def getDate_def Day_eval jan31
      MakeDay_def MakeDate_def DayFromYear_def DayFromMonth_def InLeapYear_def DaysInYear_def
      msPerDay_def TimeClip_def)

lemma mar2: "Day 1709337600000 = 19784" "TimeWithinDay 1709337600000 = 0"
  "YearFromDay 19784 = 2024" "MonthFromDay 19784 = 2"
  by (simp_all add: Day_def TimeWithinDay_def msPerDay_def YearFromDay_def year_estimate_def
      year_up.simps DayFromYear_def MonthFromDay_def MonthFromDayInYear_def InLeapYear_def
      DaysInYear_def)

lemma setDate_mar2: "setDate 1709337600000 dm = TimeClip ((19782 + dm) * 86400000)"
  by (simp add: setDate_def getFullYear_def getMonth_def mar2 MakeDay_def MakeDate_def
      DayFromYear_def DayFromMonth_def InLeapYear_def DaysInYear_def msPerDay_def)

lemma apr30: "Day 1714435200000 = 19843" "TimeWithinDay 1714435200000 = 0"
  "YearFromDay 19843 = 2024" "MonthFromDay 19843 = 3" "DateFromDay 19843 = 30"
  by (simp_all add: Day_def TimeWithinDay_def msPerDay_def YearFromDay_def year_estimate_def
      year_up.simps DayFromYear_def MonthFromDay_def MonthFromDayInYear_def DateFromDay_def
      DayFromMonth_def InLeapYear_def DaysInYear_def)

lemma may30: "setMonth 1714435200000 (getMonth 1714435200000 + 1) = Some 1717027200000"
  by (simp add: setMonth_def getMonth_def getFullYear_def getDate_def apr30
      MakeDay_def MakeDate_def DayFromYear_def DayFromMonth_def InLeapYear_def DaysInYear_def
      msPerDay_def TimeClip_def)

lemma may30_day: "Day 1717027200000 = 19873" "TimeWithinDay 1717027200000 = 0"
  "YearFromDay 19873 = 2024" "MonthFromDay 19873 = 4"
  by (simp_all add: Day_def TimeWithinDay_def msPerDay_def YearFromDay_def year_estimate_def
      year_up.simps DayFromYear_def MonthFromDay_def MonthFromDayInYear_def InLeapYear_def
      DaysInYear_def)

lemma setDate_may30: "setDate 1717027200000 dm = TimeClip ((19843 + dm) * 86400000)"
  by (simp add: setDate_def getFullYear_def getMonth_def may30_day MakeDay_def MakeDate_def
      DayFromYear_def DayFromMonth_def InLeapYear_def DaysInYear_def msPerDay_def)

lemma floor_half: "\<lfloor>1 / 2 :: rat\<rfloor> = 0"
  by (rule floor_unique) simp_all

lemma daily_example: "getNextOccurrenceDate 1706659200000 daily = Some (Some 1706745600000)"
  by (simp add: getNextOccurrenceDate_def step_def daily_def setDate_add msPerDay_def
      TimeClip_def)

text \<open>
  A monthly pattern on day 31, from 31 January 2024: \<open>setMonth\<close> rolls over to 2 March, and
  \<open>setDate(31)\<close> gives 31 March 2024.
\<close>

lemma monthly_rollover_example:
  "getNextOccurrenceDate 1706659200000 (monthly_on 31) = Some (Some 1711843200000)"
  by (simp add: getNextOccurrenceDate_def step_def monthly_on_def feb31 setDate_mar2
      TimeClip_def ToIntegerOrInfinity_def)

text \<open>
  Claim C4, as stated, fails: a daily pattern from 31 January 2024 whose end date is
  1 February 2024, the computed next date, returns that date and not \<open>null\<close>.
\<close>

theorem end_date_equal_counterexample:
  "step 1706659200000 (daily_until 1706745600000) = Some 1706745600000
   \<and> getNextOccurrenceDate 1706659200000 (daily_until 1706745600000)
       = Some (Some 1706745600000)"
  by (simp add: getNextOccurrenceDate_def step_def daily_until_def setDate_add msPerDay_def
      TimeClip_def)

text \<open>
  Claim C4, amended. For a pattern with an end date, \<open>getNextOccurrenceDate\<close> returns
  \<open>null\<close> when the given date is on or after the end date, and also when the computed next
  date is strictly later than the end date; a computed next date equal to (or before) the end
  date is returned. A next date out of the range of \<open>Date\<close>, an Invalid Date, is not later
  than the end date and is returned as well.
\<close>

theorem end_date_checks:
  assumes "endDate pattern = Some e"
  shows "(e \<le> fromDate \<longrightarrow> getNextOccurrenceDate fromDate pattern = None)
       \<and> (\<forall>next. step fromDate pattern = Some next \<and> e < next \<longrightarrow>
            getNextOccurrenceDate fromDate pattern = None)
       \<and> (\<forall>next. fromDate < e \<and> step fromDate pattern = Some next \<and> next \<le> e \<longrightarrow>
            getNextOccurrenceDate fromDate pattern = Some (Some next))
       \<and> (fromDate < e \<and> step fromDate pattern = None \<longrightarrow>
            getNextOccurrenceDate fromDate pattern = Some None)"
  using assms by (auto simp add: getNextOccurrenceDate_def Let_def split: option.splits)

theorem end_date_checks_witness:
  "getNextOccurrenceDate 1706745600000 (daily_until 1706745600000) = None
   \<and> getNextOccurrenceDate 1706659200000 (daily_until 1706700000000) = None
   \<and> getNextOccurrenceDate 1706659200000 (daily_until 1706745600000)
       = Some (Some 1706745600000)
   \<and> getNextOccurrenceDate 8640000000000000 (daily_until 8640000000000001) = Some None"
proof -
  have s: "step 1706659200000 (daily_until e) = Some 1706745600000" for e
    by (simp add: step_def daily_until_def setDate_add msPerDay_def TimeClip_def)
  have s': "step 8640000000000000 (daily_until e) = None" for e
    by (simp add: step_def daily_until_def setDate_add msPerDay_def TimeClip_def)
  have e: "endDate (daily_until e) = Some e" for e
    by (simp add: daily_until_def)
  from end_date_checks [OF e, of 1706745600000 1706745600000]
    end_date_checks [OF e, of 1706700000000 1706659200000]
    end_date_checks [OF e, of 1706745600000 1706659200000]
    end_date_checks [OF e, of 8640000000000001 8640000000000000]
  show ?thesis
    by (simp add: s s')
qed

text \<open>
  Claim C10, as stated, fails in three ways. From the last valid time value,
  8640000000000000, a daily pattern with interval 1 returns a \<open>Date\<close> object (not
  \<open>null\<close>) that is an Invalid Date, which is not later than any date. A monthly pattern
  with interval 1 and day of month -40, from 31 January 2024, returns 20 January 2024:
  \<open>setMonth\<close> gives 2 March, and \<open>setDate(-40)\<close> counts back 41 days from 1 March. And a
  monthly pattern with interval 1 and day of month 1/2, from 30 April 2024, returns
  30 April 2024 itself: \<open>setMonth\<close> gives 30 May, and \<open>setDate(0.5)\<close> is \<open>setDate(0)\<close>,
  the day before 1 May.
\<close>

theorem next_occurrence_not_later_counterexample:
  "getNextOccurrenceDate 8640000000000000 daily = Some None
   \<and> getNextOccurrenceDate 1706659200000 (monthly_on (- 40)) = Some (Some 1705708800000)
   \<and> getNextOccurrenceDate 1714435200000 (monthly_on (1 / 2)) = Some (Some 1714435200000)
   \<and> interval daily = 1 \<and> interval (monthly_on (- 40)) = 1 \<and> interval (monthly_on (1 / 2)) = 1
   \<and> \<not> (1706659200000 :: int) < 1705708800000"
  by (simp add: getNextOccurrenceDate_def step_def daily_def monthly_on_def setDate_add
      feb31 setDate_mar2 may30 setDate_may30 msPerDay_def TimeClip_def
      ToIntegerOrInfinity_def floor_half)

text \<open>
  Claim C10, amended. For a pattern with \<open>interval \<ge> 1\<close> whose day of month, when set, is
  0 or at least 1, every valid date that \<open>getNextOccurrenceDate\<close> returns (not \<open>null\<close>
  and not an Invalid Date) is strictly later than the date it was given.
\<close>

theorem next_occurrence_later:
  assumes "1 \<le> interval pattern"
    and "\<forall>dm. dayOfMonth pattern = Some dm \<longrightarrow> dm = 0 \<or> 1 \<le> dm"
    and "getNextOccurrenceDate fromDate pattern = Some (Some next)"
  shows "fromDate < next"
proof -
  from assms(3) have "step fromDate pattern = Some next"
    by (simp add: getNextOccurrenceDate_def Let_def split: if_splits)
  with assms(1,2) show ?thesis
    by (rule step_later)
qed

theorem next_occurrence_later_witness:
  "getNextOccurrenceDate 1706659200000 (monthly_on 31) = Some (Some 1711843200000)
   \<and> (1706659200000 :: int) < 1711843200000"
proof -
  have i: "1 \<le> interval (monthly_on 31)"
    and d: "\<forall>dm. dayOfMonth (monthly_on 31) = Some dm \<longrightarrow> dm = 0 \<or> 1 \<le> dm"
    by (simp_all add: monthly_on_def)
  from next_occurrence_later [OF i d monthly_rollover_example] monthly_rollover_example
  show ?thesis by simp
qed

section \<open>The streak\<close>

text \<open>In a zone without transitions local time is UTC shifted by the one offset.\<close>

lemma fixed_zone:
  assumes "tz_transitions z = []"
  shows "LocalTime z t = t + tz_offset z" and "UTC z t = t - tz_offset z"
  using assms by (simp_all add: LocalTime_def UTC_def)

lemma normalizeDate_in_fixed:
  assumes "tz_transitions z = []"
  shows "normalizeDate_in z d = TimeClip (normalizeDate (d + tz_offset z) - tz_offset z)"
proof -
  have "MakeDate (Day x) 0 = normalizeDate x" for x
    by (simp add: MakeDate_def Day_def normalizeDate_def minus_mod_eq_div_mult)
  then show ?thesis
    by (simp add: normalizeDate_in_def fixed_zone [OF assms])
qed

lemma setDate_in_fixed:
  assumes "tz_transitions z = []"
  shows "setDate_in z t (getDate_in z t - 1) = TimeClip (t - msPerDay)"
proof -
  let ?tl = "t + tz_offset z"
  have "MakeDay (YearFromDay (Day ?tl)) (MonthFromDay (Day ?tl)) (DateFromDay (Day ?tl) - 1)
          = Day ?tl - 1"
    using MakeDay_own_month [of "Day ?tl" 0 "DateFromDay (Day ?tl) - 1"]
    by (simp add: DateFromDay_eq)
  moreover have "MakeDate (Day ?tl - 1) (TimeWithinDay ?tl)
          = MakeDate (Day ?tl) (TimeWithinDay ?tl) - msPerDay"
    by (simp add: MakeDate_def algebra_simps)
  ultimately show ?thesis
    by (simp add: setDate_in_def getDate_in_def fixed_zone [OF assms] MakeDate_Day)
qed

text \<open>
  In the zone UTC the functions of this section are those of the ledger and of the
  recurrence calculator.
\<close>

lemma utc_zone:
  "normalizeDate_in utc d = TimeClip (normalizeDate d)"
  "getDate_in utc t = getDate t"
  "setDate_in utc t dt = setDate t dt"
  by (simp_all add: normalizeDate_in_fixed utc_def getDate_in_def setDate_in_def setDate_def
      getDate_def getFullYear_def getMonth_def LocalTime_def UTC_def)

lemma normalizeDate_mono: "a \<le> b \<Longrightarrow> normalizeDate a \<le> normalizeDate b"
proof -
  assume "a \<le> b"
  then have "a div msPerDay \<le> b div msPerDay"
    by (simp add: msPerDay_def zdiv_mono1)
  moreover have "normalizeDate x = (x div msPerDay) * msPerDay" for x
    by (simp add: normalizeDate_def minus_mod_eq_div_mult)
  ultimately show ?thesis
    by (simp add: msPerDay_def)
qed

lemma TimeClip_valid: "TimeClip x = Some y \<Longrightarrow> TimeClip y = Some y"
  by (simp add: TimeClip_def split: if_splits)

lemma normalized_valid:
  fixes S :: "DailyCheckIn set"
  assumes "Some d \<in> (\<lambda>c. normalizeDate_in z (ci_date c)) ` S"
  shows "TimeClip d = Some d"
proof -
  from assms obtain x :: DailyCheckIn where "Some d = normalizeDate_in z (ci_date x)"
    by blast
  then have "TimeClip (UTC z (MakeDate (Day (LocalTime z (ci_date x))) 0)) = Some d"
    by (simp add: normalizeDate_in_def)
  then show ?thesis
    by (rule TimeClip_valid)
qed

lemma streak_loop_Invalid: "streak_loop z cs None s = s"
  by (induction cs) (simp_all split: option.splits)

text \<open>
  The loop in a zone without transitions, on check-ins sorted by descending date: it adds to
  the streak the number \<open>k\<close> of consecutive days that have a check-in, counted back from
  the cursor.
\<close>

lemma streak_loop_spec:
  assumes fixed: "tz_transitions z = []"
    and sorted: "sorted_wrt (\<lambda>a b. ci_date b \<le> ci_date a) cs"
  shows "\<exists>k. streak_loop z cs cur s = s + k
           \<and> (\<forall>i<k. \<exists>t. cur = Some t
                 \<and> Some (t - int i * msPerDay) \<in> (\<lambda>c. normalizeDate_in z (ci_date c)) ` set cs)
           \<and> \<not> (\<exists>t. cur = Some t
                 \<and> Some (t - int k * msPerDay) \<in> (\<lambda>c. normalizeDate_in z (ci_date c)) ` set cs)"
  using sorted
proof (induction cs arbitrary: cur s)
  case Nil
  show ?case by simp
next
  case (Cons c cs)
  let ?nd = "\<lambda>c. normalizeDate_in z (ci_date c)"
  from Cons.prems have srt: "sorted_wrt (\<lambda>a b. ci_date b \<le> ci_date a) cs"
    and le: "\<forall>x\<in>set cs. ci_date x \<le> ci_date c"
    by simp_all
  show ?case
  proof (cases cur)
    case None
    then have "streak_loop z (c # cs) cur s = s + 0"
      by (simp add: streak_loop_Invalid)
    with None show ?thesis
      by (intro exI [of _ 0]) simp
  next
    case (Some t)
    show ?thesis
    proof (cases "?nd c")
      case None
      from Cons.IH [OF srt, of cur s]
      obtain k where k: "streak_loop z cs cur s = s + k"
        and mem: "\<forall>i<k. \<exists>t. cur = Some t \<and> Some (t - int i * msPerDay) \<in> ?nd ` set cs"
        and non: "\<not> (\<exists>t. cur = Some t \<and> Some (t - int k * msPerDay) \<in> ?nd ` set cs)"
        by blast
      have 1: "streak_loop z (c # cs) cur s = s + k"
        using None k by simp
      have img: "Some x \<in> ?nd ` set (c # cs) \<longleftrightarrow> Some x \<in> ?nd ` set cs" for x
        using None by auto
      from 1 mem non show ?thesis
        unfolding img by blast
    next
      case ndc: (Some d)
      have below: "d' \<le> d" if "Some d' \<in> ?nd ` set cs" for d'
      proof -
        from that obtain x where x: "x \<in> set cs" "?nd x = Some d'"
          by auto
        with le have "ci_date x + tz_offset z \<le> ci_date c + tz_offset z"
          by simp
        then have "normalizeDate (ci_date x + tz_offset z) - tz_offset z
                     \<le> normalizeDate (ci_date c + tz_offset z) - tz_offset z"
          using normalizeDate_mono by simp
        moreover from x(2) have "d' = normalizeDate (ci_date x + tz_offset z) - tz_offset z"
          unfolding normalizeDate_in_fixed [OF fixed] by (rule TimeClip_Some)
        moreover from ndc have "d = normalizeDate (ci_date c + tz_offset z) - tz_offset z"
          unfolding normalizeDate_in_fixed [OF fixed] by (rule TimeClip_Some)
        ultimately show ?thesis by simp
      qed
      consider (eq) "d = t" | (lt) "d < t" | (gt) "t < d"
        by linarith
      then show ?thesis
      proof cases
        case eq
        let ?cur' = "TimeClip (t - msPerDay)"
        from Cons.IH [OF srt, of ?cur' "s + 1"]
        obtain k where k: "streak_loop z cs ?cur' (s + 1) = s + 1 + k"
          and mem: "\<forall>i<k. \<exists>t'. ?cur' = Some t'
                      \<and> Some (t' - int i * msPerDay) \<in> ?nd ` set cs"
          and non: "\<not> (\<exists>t'. ?cur' = Some t'
                      \<and> Some (t' - int k * msPerDay) \<in> ?nd ` set cs)"
          by blast
        have 1: "streak_loop z (c # cs) cur s = s + Suc k"
          using eq k ndc Some by (simp add: setDate_in_fixed [OF fixed])
        have 2: "Some (t - int i * msPerDay) \<in> ?nd ` set (c # cs)" if "i < Suc k" for i
        proof (cases i)
          case 0
          with eq ndc show ?thesis by simp
        next
          case (Suc j)
          with that have "j < k" by simp
          with mem obtain t' where t': "?cur' = Some t'"
            and in_cs: "Some (t' - int j * msPerDay) \<in> ?nd ` set cs"
            by blast
          from t' have "t' = t - msPerDay"
            by (rule TimeClip_Some)
          then have "t' - int j * msPerDay = t - int i * msPerDay"
            using Suc by (simp add: algebra_simps)
          with in_cs show ?thesis by simp
        qed
        have 3: "Some (t - int (Suc k) * msPerDay) \<notin> ?nd ` set (c # cs)"
        proof
          assume a: "Some (t - int (Suc k) * msPerDay) \<in> ?nd ` set (c # cs)"
          have "0 < int (Suc k) * msPerDay"
            by (simp add: msPerDay_def)
          then have "t - int (Suc k) * msPerDay \<noteq> t"
            by linarith
          with eq ndc have "Some (t - int (Suc k) * msPerDay) \<noteq> ?nd c"
            by simp
          with a have in_cs: "Some (t - int (Suc k) * msPerDay) \<in> ?nd ` set cs"
            by auto
          have e: "t - int (Suc k) * msPerDay = t - msPerDay - int k * msPerDay"
            by (simp add: algebra_simps)
          show False
          proof (cases ?cur')
            case (Some t')
            then have "t' = t - msPerDay"
              by (rule TimeClip_Some)
            with in_cs have "Some (t' - int k * msPerDay) \<in> ?nd ` set cs"
              unfolding e by blast
            with Some non show False by blast
          next
            case None
            with k have "k = 0"
              by (simp add: streak_loop_Invalid)
            with in_cs have "Some (t - msPerDay) \<in> ?nd ` set cs"
              by simp
            then have "TimeClip (t - msPerDay) = Some (t - msPerDay)"
              by (rule normalized_valid)
            with None show False by simp
          qed
        qed
        from 1 2 3 Some show ?thesis by blast
      next
        case lt
        have 1: "streak_loop z (c # cs) cur s = s + 0"
          using lt ndc Some by simp
        have "Some t \<notin> ?nd ` set (c # cs)"
        proof
          assume "Some t \<in> ?nd ` set (c # cs)"
          with ndc lt have "Some t \<in> ?nd ` set cs" by auto
          from below [OF this] lt show False by simp
        qed
        with 1 Some show ?thesis
          by (intro exI [of _ 0]) simp
      next
        case gt
        from Cons.IH [OF srt, of cur s]
        obtain k where k: "streak_loop z cs cur s = s + k"
          and mem: "\<forall>i<k. \<exists>t. cur = Some t \<and> Some (t - int i * msPerDay) \<in> ?nd ` set cs"
          and non: "\<not> (\<exists>t. cur = Some t \<and> Some (t - int k * msPerDay) \<in> ?nd ` set cs)"
          by blast
        have 1: "streak_loop z (c # cs) cur s = s + k"
          using gt k ndc Some by simp
        have 2: "\<forall>i<k. \<exists>t. cur = Some t
                   \<and> Some (t - int i * msPerDay) \<in> ?nd ` set (c # cs)"
          using mem by auto
        have "0 \<le> int k * msPerDay"
          by (simp add: msPerDay_def)
        with gt have "t - int k * msPerDay \<noteq> d" by linarith
        with ndc have "Some (t - int k * msPerDay) \<noteq> ?nd c" by simp
        with non Some have 3: "Some (t - int k * msPerDay) \<notin> ?nd ` set (c # cs)"
          by auto
        from 1 2 3 Some show ?thesis by blast
      qed
    qed
  qed
qed

lemma sorted_desc: "sorted_wrt (\<lambda>a b. ci_date b \<le> ci_date a) (sort_key (\<lambda>c. - ci_date c) xs)"
proof -
  have "sorted (map (\<lambda>c. - ci_date c) (sort_key (\<lambda>c. - ci_date c) xs))"
    by (rule sorted_sort_key)
  then have "sorted_wrt (\<lambda>a b. - ci_date a \<le> - ci_date b) (sort_key (\<lambda>c. - ci_date c) xs)"
    by (simp add: sorted_map)
  then show ?thesis
    by simp
qed

text \<open>
  In a time zone without transitions the streak is the count it is meant to be. With \<open>today\<close> the
  normalized clock reading, the value \<open>k\<close> of \<open>getStreakForGoal\<close> is the number of
  consecutive days ending at and including today that have a completed record of the goal:
  each of the days today, today - 1, ..., today - (k - 1) has one, and the day today - k has
  none. In particular it is 0 exactly when today has no completed record.
\<close>

lemma streak_without_transitions:
  assumes "tz_transitions z = []"
  shows "(\<forall>i < getStreakForGoal z now tr g. \<exists>today. normalizeDate_in z now = Some today
            \<and> today - int i * msPerDay \<in> completed_days z tr g)
       \<and> \<not> (\<exists>today. normalizeDate_in z now = Some today
            \<and> today - int (getStreakForGoal z now tr g) * msPerDay \<in> completed_days z tr g)"
proof -
  let ?cs = "sort_key (\<lambda>c. - ci_date c) (filter ci_completed (getCheckInsForGoal tr g))"
  let ?today = "normalizeDate_in z now"
  have days: "Some d \<in> (\<lambda>c. normalizeDate_in z (ci_date c)) ` set ?cs
                \<longleftrightarrow> d \<in> completed_days z tr g" for d
    by (auto simp add: completed_days_def getCheckInsForGoal_def image_iff)
  from streak_loop_spec [OF assms sorted_desc, of "filter ci_completed (getCheckInsForGoal tr g)" ?today 0]
  obtain k where k: "streak_loop z ?cs ?today 0 = k"
    and mem: "\<forall>i<k. \<exists>t. ?today = Some t \<and> t - int i * msPerDay \<in> completed_days z tr g"
    and non: "\<not> (\<exists>t. ?today = Some t \<and> t - int k * msPerDay \<in> completed_days z tr g)"
    unfolding days by auto
  show ?thesis
  proof (cases "?cs = []")
    case True
    then have "getStreakForGoal z now tr g = 0"
      by (simp add: getStreakForGoal_def)
    moreover from True have "d \<notin> completed_days z tr g" for d
      using days [of d] by simp
    ultimately show ?thesis by simp
  next
    case False
    then have "getStreakForGoal z now tr g = k"
      using k by (simp add: getStreakForGoal_def Let_def)
    with mem non show ?thesis by simp
  qed
qed

text \<open>The two examples of the specification, in the zone UTC.\<close>

lemma utc_days:
  "normalizeDate_in utc (20 * 86400000 + 36000000) = Some (20 * 86400000)"
  "normalizeDate_in utc (20 * 86400000) = Some (20 * 86400000)"
  "normalizeDate_in utc (19 * 86400000) = Some (19 * 86400000)"
  "normalizeDate_in utc (18 * 86400000) = Some (18 * 86400000)"
  "normalizeDate_in utc (15 * 86400000) = Some (15 * 86400000)"
  by (simp_all add: utc_zone normalizeDate_def TimeClip_def msPerDay_def)

lemma utc_back:
  "setDate_in utc t (getDate_in utc t - 1) = TimeClip (t - 86400000)"
  by (simp add: setDate_in_fixed utc_def msPerDay_def)

lemma streak_three_days:
  "getStreakForGoal utc (20 * 86400000 + 36000000) ledger_three ''g1'' = 3"
  using utc_days utc_back
  by (simp add: getStreakForGoal_def getCheckInsForGoal_def ledger_three_def mk_checkIn_def
      TimeClip_def)

lemma streak_gap_yesterday:
  "getStreakForGoal utc (20 * 86400000 + 36000000) ledger_gap ''g1'' = 0"
  using utc_days utc_back
  by (simp add: getStreakForGoal_def getCheckInsForGoal_def ledger_gap_def mk_checkIn_def
      TimeClip_def)

text \<open>
  Dates of the Santiago example: 8 September 2024 is day 19974, and 01:00 of that local
  day, which \<open>normalizeDate\<close> gives for it, goes back to 01:00 of 7 September, 05:00 UTC,
  an hour after the date of the record of that day.
\<close>

lemma sep8: "YearFromDay 19974 = 2024" "MonthFromDay 19974 = 8" "DateFromDay 19974 = 8"
  by (simp_all add: YearFromDay_def year_estimate_def year_up.simps DayFromYear_def
      MonthFromDay_def MonthFromDayInYear_def DateFromDay_def DayFromMonth_def InLeapYear_def
      DaysInYear_def)

lemma santiago_days:
  "normalizeDate_in santiago 1725800400000 = Some 1725768000000"
  "normalizeDate_in santiago 1725768000000 = Some 1725768000000"
  "normalizeDate_in santiago 1725681600000 = Some 1725681600000"
  "normalizeDate_in santiago 1725595200000 = Some 1725595200000"
  by (simp_all add: normalizeDate_in_def santiago_def LocalTime_def UTC_def Day_def
      MakeDate_def TimeClip_def msPerDay_def)

lemma santiago_back:
  "setDate_in santiago 1725768000000 (getDate_in santiago 1725768000000 - 1)
     = Some 1725685200000"
proof -
  have "LocalTime santiago 1725768000000 = 1725757200000"
    by (simp add: LocalTime_def santiago_def)
  moreover have "Day 1725757200000 = 19974" "TimeWithinDay 1725757200000 = 3600000"
    by (simp_all add: Day_def TimeWithinDay_def msPerDay_def)
  ultimately show ?thesis
    by (simp add: setDate_in_def getDate_in_def sep8 MakeDay_def MakeDate_def DayFromYear_def
        DayFromMonth_def InLeapYear_def DaysInYear_def UTC_def santiago_def TimeClip_def
        msPerDay_def)
qed

text \<open>
  Claim C3 fails in a time zone whose daylight-saving time starts at local midnight. In
  America/Santiago on 8 September 2024, with a completed record for that day, for
  7 September and for 6 September and none before, \<open>getStreakForGoal\<close> is 1, where the
  claim says 3: the cursor, 01:00 of 8 September, is moved to 01:00 of 7 September, which
  is later than the record of that day, and the loop stops.
\<close>

theorem streak_breaks_at_dst_start:
  "getStreakForGoal santiago 1725800400000 ledger_santiago ''g1'' = 1
   \<and> local_day santiago 1725800400000 = 19974
   \<and> map (\<lambda>c. local_day santiago (ci_date c))
        (filter ci_completed (getCheckInsForGoal ledger_santiago ''g1''))
       = [19974, 19973, 19972]
   \<and> map (\<lambda>c. normalizeDate_in santiago (ci_date c)) (checkIns ledger_santiago)
       = map (\<lambda>c. Some (ci_date c)) (checkIns ledger_santiago)"
proof -
  have "getStreakForGoal santiago 1725800400000 ledger_santiago ''g1'' = 1"
    using santiago_days santiago_back
    by (simp add: getStreakForGoal_def getCheckInsForGoal_def ledger_santiago_def
        mk_checkIn_def)
  moreover have "local_day santiago 1725800400000 = 19974"
    "local_day santiago 1725768000000 = 19974"
    "local_day santiago 1725681600000 = 19973"
    "local_day santiago 1725595200000 = 19972"
    by (simp_all add: local_day_def LocalTime_def santiago_def Day_def msPerDay_def)
  ultimately show ?thesis
    using santiago_days
    by (simp add: getCheckInsForGoal_def ledger_santiago_def mk_checkIn_def)
qed

section \<open>Progress of a goal with children\<close>

lemma those_map_Some:
  "those (map f xs) = Some ys \<longleftrightarrow> list_all2 (\<lambda>x y. f x = Some y) xs ys"
proof (induction xs arbitrary: ys)
  case Nil
  show ?case by auto
next
  case (Cons x xs)
  show ?case
  proof (cases "f x")
    case None
    then show ?thesis
      by (simp add: list_all2_Cons1)
  next
    case (Some y)
    then show ?thesis
      using Cons.IH by (cases "those (map f xs)") (auto simp: list_all2_Cons1)
  qed
qed

lemma list_all2_total:
  assumes "\<forall>x\<in>set xs. \<exists>y. f x = Some y"
  shows "\<exists>ys. list_all2 (\<lambda>x y. f x = Some y) xs ys"
  using assms
proof (induction xs)
  case Nil
  show ?case by simp
next
  case (Cons x xs)
  then obtain y ys where "f x = Some y" and "list_all2 (\<lambda>x y. f x = Some y) xs ys"
    by auto
  then have "list_all2 (\<lambda>x y. f x = Some y) (x # xs) (y # ys)"
    by simp
  then show ?case ..
qed

lemma calculateProgress_goal_children:
  assumes "find (\<lambda>g. goal_id g = goalId) goals = Some goal"
    and "childGoals_of goals goalId \<noteq> []"
  shows "calculateProgress_goal (Suc fuel) goals todos goalId =
           (case those (map (\<lambda>child. calculateProgress_goal fuel goals todos (goal_id child))
                          (childGoals_of goals goalId)) of
              None \<Rightarrow> None
            | Some ps \<Rightarrow> Some (Math_round (fl (of_int (sum_list ps)
                           / of_nat (length (childGoals_of goals goalId))))))"
  using assms unfolding childGoals_of_def by (simp add: Let_def)

lemma calculateProgress_goal_children_value:
  assumes "find (\<lambda>g. goal_id g = goalId) goals = Some goal"
    and "childGoals_of goals goalId \<noteq> []"
    and "list_all2 (\<lambda>c p. calculateProgress_goal fuel goals todos (goal_id c) = Some p)
           (childGoals_of goals goalId) ps"
  shows "calculateProgress_goal (Suc fuel) goals todos goalId =
           Some (Math_round (fl (of_int (sum_list ps)
                   / of_nat (length (childGoals_of goals goalId)))))"
proof -
  from assms(3) have "those (map (\<lambda>child. calculateProgress_goal fuel goals todos (goal_id child))
      (childGoals_of goals goalId)) = Some ps"
    by (simp add: those_map_Some)
  then show ?thesis
    unfolding calculateProgress_goal_children [OF assms(1,2)] by simp
qed

lemma calculateProgress_goal_mono:
  "calculateProgress_goal fuel goals todos goalId = Some v \<Longrightarrow>
     calculateProgress_goal (Suc fuel) goals todos goalId = Some v"
proof (induction fuel arbitrary: goalId v)
  case 0
  then show ?case by simp
next
  case (Suc fuel)
  show ?case
  proof (cases "find (\<lambda>g. goal_id g = goalId) goals")
    case None
    with Suc.prems show ?thesis by simp
  next
    case (Some goal)
    show ?thesis
    proof (cases "childGoals_of goals goalId = []")
      case True
      with Some Suc.prems show ?thesis
        unfolding childGoals_of_def by (simp add: Let_def)
    next
      case False
      let ?cs = "childGoals_of goals goalId"
      from Suc.prems obtain ps where
        ps: "those (map (\<lambda>c. calculateProgress_goal fuel goals todos (goal_id c)) ?cs) = Some ps"
        and v: "v = Math_round (fl (of_int (sum_list ps) / of_nat (length ?cs)))"
        unfolding calculateProgress_goal_children [OF Some False]
        by (auto split: option.splits)
      from ps have "list_all2 (\<lambda>c p. calculateProgress_goal fuel goals todos (goal_id c) = Some p)
          ?cs ps"
        by (simp add: those_map_Some)
      then have "list_all2 (\<lambda>c p. calculateProgress_goal (Suc fuel) goals todos (goal_id c) = Some p)
          ?cs ps"
        by (rule list_all2_mono) (rule Suc.IH)
      with Some False show ?thesis
        unfolding v by (rule calculateProgress_goal_children_value)
    qed
  qed
qed

lemma calculateProgress_goal_mono_le:
  assumes "fuel \<le> fuel'"
  shows "calculateProgress_goal fuel goals todos goalId = Some v \<Longrightarrow>
     calculateProgress_goal fuel' goals todos goalId = Some v"
  using assms
proof (induction rule: dec_induct)
  case base
  then show ?case .
next
  case (step n)
  from step.IH [OF step.prems] show ?case
    by (rule calculateProgress_goal_mono)
qed

lemma calculateProgress_goal_total:
  assumes "acyclic_by rank goals"
  shows "rank goalId \<le> fuel \<Longrightarrow> \<exists>v. calculateProgress_goal (Suc fuel) goals todos goalId = Some v"
proof (induction fuel arbitrary: goalId rule: less_induct)
  case (less fuel)
  show ?case
  proof (cases "find (\<lambda>g. goal_id g = goalId) goals")
    case None
    then show ?thesis by simp
  next
    case (Some goal)
    show ?thesis
    proof (cases "childGoals_of goals goalId = []")
      case True
      with Some show ?thesis
        unfolding childGoals_of_def by (simp add: Let_def)
    next
      case False
      let ?cs = "childGoals_of goals goalId"
      have "\<exists>v. calculateProgress_goal fuel goals todos (goal_id c) = Some v" if "c \<in> set ?cs" for c
      proof -
        from that have "c \<in> set goals" "goal_parentGoalId c = Some goalId"
          by (simp_all add: childGoals_of_def)
        with assms have r: "rank (goal_id c) < rank goalId"
          unfolding acyclic_by_def by blast
        with less.prems obtain fuel' where f: "fuel = Suc fuel'" "rank (goal_id c) \<le> fuel'"
          by (cases fuel) auto
        from less.IH [of fuel' "goal_id c"] f show ?thesis
          by simp
      qed
      then have "\<exists>ps. list_all2 (\<lambda>c p. calculateProgress_goal fuel goals todos (goal_id c) = Some p)
          ?cs ps"
        by (intro list_all2_total) blast
      then obtain ps where
        "list_all2 (\<lambda>c p. calculateProgress_goal fuel goals todos (goal_id c) = Some p) ?cs ps"
        by blast
      with Some False have "calculateProgress_goal (Suc fuel) goals todos goalId =
           Some (Math_round (fl (of_int (sum_list ps) / of_nat (length ?cs))))"
        by (rule calculateProgress_goal_children_value)
      then show ?thesis by blast
    qed
  qed
qed


text \<open>
  Claim C1. In a hierarchy without cycles, for a goal with one or more children every child
  has an effective progress (its \<open>calculateProgress\<close> returns it at every sufficient depth),
  and when their sum \<open>s\<close> is below \<open>2^52\<close> in magnitude the goal's own effective progress is
  \<open>\<lfloor>s / n + 1/2\<rfloor>\<close> for its \<open>n\<close> children: their unweighted mean rounded to the nearest
  integer, a half rounding up. Linked todos, status and stored progress of the goal play no
  part.
\<close>

theorem child_goals_mean:
  assumes acyclic: "acyclic_by rank goals"
    and goal: "find (\<lambda>g. goal_id g = goalId) goals = Some goal"
    and children: "childGoals_of goals goalId \<noteq> []"
  shows "\<exists>ps. list_all2 (\<lambda>c p. \<forall>fuel > rank (goal_id c).
                  calculateProgress_goal fuel goals todos (goal_id c) = Some p)
                (childGoals_of goals goalId) ps
            \<and> (\<bar>sum_list ps\<bar> < 2 ^ 52 \<longrightarrow>
                 (\<forall>fuel > rank goalId. calculateProgress_goal fuel goals todos goalId =
                    Some ((2 * sum_list ps + int (length ps)) div (2 * int (length ps)))))"
proof -
  let ?cs = "childGoals_of goals goalId"
  have "\<exists>v. calculateProgress_goal (Suc (rank (goal_id c))) goals todos (goal_id c) = Some v"
    for c
    by (rule calculateProgress_goal_total [OF acyclic]) simp
  then have "\<exists>ps. list_all2
      (\<lambda>c p. calculateProgress_goal (Suc (rank (goal_id c))) goals todos (goal_id c) = Some p)
      ?cs ps"
    by (intro list_all2_total) blast
  then obtain ps where ps: "list_all2
      (\<lambda>c p. calculateProgress_goal (Suc (rank (goal_id c))) goals todos (goal_id c) = Some p)
      ?cs ps"
    by blast
  have all: "list_all2 (\<lambda>c p. \<forall>fuel > rank (goal_id c).
      calculateProgress_goal fuel goals todos (goal_id c) = Some p) ?cs ps"
    using ps
  proof (rule list_all2_mono)
    fix c p
    assume "calculateProgress_goal (Suc (rank (goal_id c))) goals todos (goal_id c) = Some p"
    then have "calculateProgress_goal fuel goals todos (goal_id c) = Some p"
      if "Suc (rank (goal_id c)) \<le> fuel" for fuel
      using that by (rule calculateProgress_goal_mono_le [rotated])
    then show "\<forall>fuel > rank (goal_id c).
        calculateProgress_goal fuel goals todos (goal_id c) = Some p"
      by (simp add: Suc_le_eq)
  qed
  have len: "length ps = length ?cs"
    using ps by (simp add: list_all2_lengthD)
  with children have pos: "0 < int (length ps)"
    by simp
  have "calculateProgress_goal fuel goals todos goalId =
      Some ((2 * sum_list ps + int (length ps)) div (2 * int (length ps)))"
    if small: "\<bar>sum_list ps\<bar> < 2 ^ 52" and fuel: "rank goalId < fuel" for fuel
  proof -
    from fuel obtain f where f: "fuel = Suc f" "rank goalId \<le> f"
      by (cases fuel) auto
    have "list_all2 (\<lambda>c p. calculateProgress_goal f goals todos (goal_id c) = Some p) ?cs ps"
      using all
    proof (rule list.rel_mono_strong)
      fix c p
      assume c: "c \<in> set ?cs"
        and p: "\<forall>fuel > rank (goal_id c).
          calculateProgress_goal fuel goals todos (goal_id c) = Some p"
      from c have "c \<in> set goals" "goal_parentGoalId c = Some goalId"
        by (simp_all add: childGoals_of_def)
      with acyclic have "rank (goal_id c) < rank goalId"
        unfolding acyclic_by_def by blast
      with f(2) have "rank (goal_id c) < f"
        by simp
      with p show "calculateProgress_goal f goals todos (goal_id c) = Some p"
        by blast
    qed
    with goal children have "calculateProgress_goal (Suc f) goals todos goalId =
        Some (Math_round (fl (of_int (sum_list ps) / of_nat (length ?cs))))"
      by (rule calculateProgress_goal_children_value)
    moreover have "(of_nat (length ?cs) :: rat) = of_int (int (length ps))"
      by (simp add: len)
    ultimately show ?thesis
      using Math_round_fl_div [OF pos small] f(1) by simp
  qed
  with all show ?thesis by blast
qed

theorem child_goals_mean_witness:
  "calculateProgress_goal 1 family family_todos ''c1'' = Some 40
   \<and> calculateProgress_goal 1 family family_todos ''c2'' = Some 41
   \<and> calculateProgress_goal 2 family family_todos ''p'' = Some 41"
proof -
  have c1: "calculateProgress_goal 1 family family_todos ''c1'' = Some 40"
    and c2: "calculateProgress_goal 1 family family_todos ''c2'' = Some 41"
    by (simp_all add: family_def family_todos_def mk_goal_def todo_fields_def)
  have a: "acyclic_by family_rank family"
    by (simp add: acyclic_by_def family_def family_rank_def mk_goal_def)
  have g: "find (\<lambda>g. goal_id g = ''p'') family = Some (mk_goal ''p'' None Weekly Goal_completed 7)"
    by (simp add: family_def mk_goal_def)
  have cs: "childGoals_of family ''p'' = [mk_goal ''c1'' (Some ''p'') Daily Goal_in_progress 40,
      mk_goal ''c2'' (Some ''p'') Daily Goal_on_hold 41]"
    by (simp add: childGoals_of_def family_def mk_goal_def)
  then have ne: "childGoals_of family ''p'' \<noteq> []"
    by simp
  from child_goals_mean [OF a g ne, of family_todos] obtain ps where
    ps: "list_all2 (\<lambda>c p. \<forall>fuel > family_rank (goal_id c).
           calculateProgress_goal fuel family family_todos (goal_id c) = Some p)
           (childGoals_of family ''p'') ps"
    and mean: "\<bar>sum_list ps\<bar> < 2 ^ 52 \<longrightarrow>
           (\<forall>fuel > family_rank ''p''. calculateProgress_goal fuel family family_todos ''p'' =
              Some ((2 * sum_list ps + int (length ps)) div (2 * int (length ps))))"
    by blast
  from ps obtain p1 p2 where ps2: "ps = [p1, p2]"
    and q1: "\<forall>fuel > 0. calculateProgress_goal fuel family family_todos ''c1'' = Some p1"
    and q2: "\<forall>fuel > 0. calculateProgress_goal fuel family family_todos ''c2'' = Some p2"
    unfolding cs by (auto simp: list_all2_Cons1 mk_goal_def family_rank_def)
  have "calculateProgress_goal 1 family family_todos ''c1'' = Some p1"
    using q1 zero_less_one by blast
  moreover have "calculateProgress_goal 1 family family_todos ''c2'' = Some p2"
    using q2 zero_less_one by blast
  ultimately have "ps = [40, 41]"
    using c1 c2 by (simp only: ps2 option.inject)
  with mean have "\<forall>fuel > family_rank ''p''.
      calculateProgress_goal fuel family family_todos ''p'' = Some 41"
    by simp
  moreover have "family_rank ''p'' < 2"
    by (simp add: family_rank_def)
  ultimately have "calculateProgress_goal 2 family family_todos ''p'' = Some 41"
    by blast
  with c1 c2 show ?thesis by blast
qed

section \<open>Progress from check-ins\<close>

lemma completed_23: "length (filter ci_completed (getCheckInsForGoal ledger_23 ''g1'')) = 23"
  by (simp add: getCheckInsForGoal_def ledger_23_def mk_checkIn_def filter_map o_def)

lemma round_23_of_40: "Math_round (fl (fl (23 / 40) * 100)) = 57"
  by code_simp

lemma round_15_of_30: "min 100 (Math_round (fl (fl (15 / 30) * 100))) = 50"
  by code_simp

lemma round_31_of_30: "min 100 (Math_round (fl (fl (31 / 30) * 100))) = 100"
  by code_simp

text \<open>
  Away from exact ties the double computation agrees with the exact formula: when
  \<open>100 * c / t\<close> is not halfway between two integers (and \<open>c < 2^43\<close>), the result is
  \<open>\<lfloor>100 * c / t + 1/2\<rfloor>\<close> capped at 100.
\<close>

lemma calculateProgress_tracking_off_ties:
  assumes "0 < targetDays"
    and "c = length (filter ci_completed (getCheckInsForGoal tr goalId))"
    and "c < 2 ^ 43"
    and "(200 * int c + int targetDays) mod (2 * int targetDays) \<noteq> 0"
  shows "calculateProgress_tracking tr goalId targetDays trackingStartDate =
           Some (min 100 ((200 * int c + int targetDays) div (2 * int targetDays)))"
  using assms(1) percent_off_ties [OF assms(1,3,4)]
  by (simp add: calculateProgress_tracking_def Let_def assms(2) [symmetric])

text \<open>
  Claim C2 at 23 completed check-ins and \<open>targetDays = 40\<close>: the quotient \<open>23 / 40\<close> is
  rounded to a double below 0.575, its product with 100 to a double below 57.5, and the
  result is 57, where \<open>round(100 * 23 / 40)\<close>, the rounding of 57.5, is 58.
\<close>

theorem percent_23_of_40:
  "calculateProgress_tracking ledger_23 ''g1'' 40 trackingStartDate = Some 57
   \<and> min 100 \<lfloor>100 * 23 / (40::rat) + 1 / 2\<rfloor> = 58"
  by (simp add: calculateProgress_tracking_def Let_def completed_23 round_23_of_40)

end
